theory Spec2Isabelle
  imports Complex_Main "HOL-Library.Multiset"
begin

section \<open>Data model\<close>

text \<open>
  The module \<open>genetic_algorithm.py\<close> is Python 2 (it uses the \<open>print\<close> statement), so
  \<open>len(population) / 2\<close> is integer division. Python floats are modelled as reals: rounding
  is not part of the model. Python integers are unbounded and modelled as \<open>int\<close>.

  The exceptions that the modelled code can raise:
\<close>

datatype error = IndexError | ValueError | ZeroDivisionError

text \<open>
  Modelled from the spec: the class \<open>Chromosome\<close> (module \<open>chromosome\<close>) is imported by
  \<open>genetic_algorithm.py\<close> but is not among the sources. The spec describes an individual as
  a weight vector of 7 real-valued genes plus an integer fitness, created with zero genes
  and zero fitness, owned by one population and never shared.
\<close>

record chromosome =
  weights :: "real list"
  fitness :: int

text \<open>
  Chromosome objects live in a store and are handled by reference, as in Python: a
  reference is an index into the store, an allocation appends to it, and two references
  denote the same individual exactly when they are equal. A population is a list of
  references.
\<close>

type_synonym ref = nat
type_synonym heap = "chromosome list"

text \<open>Modelled from the spec: the state of the object that the constructor \<open>Chromosome()\<close> returns.\<close>

definition Chromosome :: chromosome where
  "Chromosome = \<lparr>weights = replicate 7 0, fitness = 0\<rparr>"

text \<open>Modelled from the spec: the method \<open>set_fitness\<close> stores the fitness of one individual.\<close>

definition set_fitness :: "heap \<Rightarrow> ref \<Rightarrow> int \<Rightarrow> heap" where
  "set_fitness h c s = h[c := (h ! c)\<lparr>fitness := s\<rparr>]"

text \<open>The assignment \<open>c.weights[i] = v\<close>; the callers check the index first.\<close>

definition set_weight :: "heap \<Rightarrow> ref \<Rightarrow> nat \<Rightarrow> real \<Rightarrow> heap" where
  "set_weight h c i v = h[c := (h ! c)\<lparr>weights := (weights (h ! c))[i := v]\<rparr>]"

section \<open>Fitness evaluation\<close>

text \<open>
  \<open>evaluate_sigmoid\<close>: the weighted sum over \<open>zip(weights, values)\<close> (which stops at the
  shorter list), shifted by 125000, through the two-branch logistic function. The code
  returns 1 when the logistic value is at least 0.5 (its docstring says above 0.5); the model
  follows the code.
\<close>

fun weighted_sum :: "real \<Rightarrow> (real \<times> real) list \<Rightarrow> real" where
  "weighted_sum acc [] = acc"
| "weighted_sum acc ((w, v) # rest) = weighted_sum (acc + w * v) rest"

definition evaluate_sigmoid :: "real list \<Rightarrow> real list \<Rightarrow> int" where
  "evaluate_sigmoid ws values =
     (let gamma = weighted_sum 0 (zip ws values) - 125000;
          res = (if gamma < 0 then 1 - 1 / (1 + exp gamma) else 1 / (1 + exp (-1 * gamma)))
      in if res \<ge> 0.5 then 1 else -1)"

text \<open>
  \<open>evaluate_loop ws data n\<close> is the pair \<open>(success, fail)\<close> after the first \<open>n\<close> iterations
  of the loop of \<open>evaluate_fitness\<close> (\<open>i = 0, \<dots>, n - 1\<close>). \<open>data[i]\<close> and \<open>data[i + 1]\<close>
  exist for every \<open>i\<close> in \<open>range(len(data) - 1)\<close>; reading field 3 of a row raises
  \<open>IndexError\<close> when the row is too short.
\<close>

fun evaluate_loop :: "real list \<Rightarrow> real list list \<Rightarrow> nat \<Rightarrow> error + (int \<times> int)" where
  "evaluate_loop ws data 0 = Inr (0, 0)"
| "evaluate_loop ws data (Suc i) =
     (case evaluate_loop ws data i of
        Inl e \<Rightarrow> Inl e
      | Inr (success, fail) \<Rightarrow>
          (let res = evaluate_sigmoid ws (data ! i) in
           if 3 < length (data ! (i + 1)) \<and> 3 < length (data ! i) then
             (let prc_diff = data ! (i + 1) ! 3 - data ! i ! 3 in
              if (res = 1 \<and> prc_diff \<ge> 0) \<or> (res = -1 \<and> prc_diff < 0)
              then Inr (success + 1, fail)
              else Inr (success, fail + 1))
           else Inl IndexError))"

text \<open>
  The loop runs over \<open>range(len(data) - 1)\<close>, which is empty for an empty dataset: the
  number of iterations is the truncated difference \<open>length data - 1\<close>.
\<close>

definition evaluate_counts :: "real list \<Rightarrow> real list list \<Rightarrow> error + (int \<times> int)" where
  "evaluate_counts ws data = evaluate_loop ws data (length data - 1)"

definition evaluate_fitness :: "heap \<Rightarrow> ref \<Rightarrow> real list list \<Rightarrow> error + heap" where
  "evaluate_fitness h chromosome data =
     (case evaluate_counts (weights (h ! chromosome)) data of
        Inl e \<Rightarrow> Inl e
      | Inr (success, fail) \<Rightarrow> Inr (set_fitness h chromosome success))"

text \<open>
  A dataset is well formed when every row has the closing-price field (index 3); the
  7-wide rows of the spec are a special case.
\<close>

definition well_formed :: "real list list \<Rightarrow> bool" where
  "well_formed data = (\<forall>row \<in> set data. 3 < length row)"

text \<open>
  The specification of the fitness, in the spec's words: the actual direction of row \<open>i\<close>
  is up when the closing price of the next row is not lower, and the fitness counts the
  rows among the first \<open>L - 1\<close> whose predicted direction is the actual one.
\<close>

definition actual_direction :: "real list list \<Rightarrow> nat \<Rightarrow> int" where
  "actual_direction data i = (if data ! (i + 1) ! 3 - data ! i ! 3 \<ge> 0 then 1 else -1)"

definition matching_rows :: "real list \<Rightarrow> real list list \<Rightarrow> nat list" where
  "matching_rows ws data =
     filter (\<lambda>i. evaluate_sigmoid ws (data ! i) = actual_direction data i) [0..<length data - 1]"

section \<open>The random source\<close>

text \<open>
  The calls into Python's \<open>random\<close> module read a shared source of randomness. It is
  modelled as an arbitrary infinite sequence of raw draws with a read position, threaded
  through every function that draws; a theorem for every source is a theorem for every
  realisation of the draws. \<open>random()\<close> yields a multiple of \<open>2^-53\<close> in \<open>[0, 1)\<close>,
  \<open>uniform(a, b)\<close> is \<open>a + (b - a) * random()\<close>, and \<open>randint(a, b)\<close> with \<open>a \<le> b\<close> yields
  an integer of \<open>[a, b]\<close>, each of them for some raw draw (a caller whose range may be
  empty checks it first, where Python raises \<open>ValueError\<close>).
\<close>

type_synonym rng = "(nat \<Rightarrow> nat) \<times> nat"

definition random_raw :: "rng \<Rightarrow> nat \<times> rng" where
  "random_raw g = (fst g (snd g), (fst g, Suc (snd g)))"

definition random_float :: "rng \<Rightarrow> real \<times> rng" where
  "random_float g = (case random_raw g of (r, g') \<Rightarrow> (real (r mod 2 ^ 53) / 2 ^ 53, g'))"

definition uniform :: "real \<Rightarrow> real \<Rightarrow> rng \<Rightarrow> real \<times> rng" where
  "uniform a b g = (case random_float g of (u, g') \<Rightarrow> (a + (b - a) * u, g'))"

definition randint :: "int \<Rightarrow> int \<Rightarrow> rng \<Rightarrow> int \<times> rng" where
  "randint a b g = (case random_raw g of (r, g') \<Rightarrow> (a + int r mod (b - a + 1), g'))"

text \<open>
  \<open>random.shuffle\<close> of Python 2: for \<open>i\<close> from \<open>len(x) - 1\<close> down to 1, exchange \<open>x[i]\<close>
  with \<open>x[j]\<close> for a random \<open>j\<close> of \<open>[0, i]\<close>. \<open>shuffle_loop k\<close> runs \<open>i = k, \<dots>, 1\<close>.
\<close>

fun shuffle_loop :: "nat \<Rightarrow> 'a list \<Rightarrow> rng \<Rightarrow> 'a list \<times> rng" where
  "shuffle_loop 0 x g = (x, g)"
| "shuffle_loop (Suc i) x g =
     (case random_raw g of (r, g') \<Rightarrow>
        (let j = r mod (Suc i + 1) in shuffle_loop i (x[Suc i := x ! j, j := x ! Suc i]) g'))"

definition shuffle :: "'a list \<Rightarrow> rng \<Rightarrow> 'a list \<times> rng" where
  "shuffle x g = shuffle_loop (length x - 1) x g"

section \<open>Population creation\<close>

text \<open>
  Modelled from the spec: the method \<open>set_random_weights\<close> of the missing class
  \<open>Chromosome\<close> replaces every gene by an independent draw, uniform in \<open>[0, 500000)\<close>.
  \<open>set_random_weights_loop h c n\<close> is the state after the first \<open>n\<close> genes.
\<close>

fun set_random_weights_loop :: "heap \<Rightarrow> ref \<Rightarrow> nat \<Rightarrow> rng \<Rightarrow> heap \<times> rng" where
  "set_random_weights_loop h c 0 g = (h, g)"
| "set_random_weights_loop h c (Suc i) g =
     (case set_random_weights_loop h c i g of (h', g') \<Rightarrow>
        (case uniform 0 500000 g' of (v, g'') \<Rightarrow> (set_weight h' c i v, g'')))"

definition set_random_weights :: "heap \<Rightarrow> ref \<Rightarrow> rng \<Rightarrow> heap \<times> rng" where
  "set_random_weights h c g = set_random_weights_loop h c (length (weights (h ! c))) g"

text \<open>
  \<open>create_population_loop n\<close> is the state (store, \<open>population_list\<close>, random source)
  after the first \<open>n\<close> iterations of the loop of \<open>create_population\<close>. A size is a natural
  number; Python's \<open>range\<close> of a negative size is empty like that of 0.
\<close>

fun create_population_loop :: "nat \<Rightarrow> heap \<times> ref list \<times> rng \<Rightarrow> heap \<times> ref list \<times> rng" where
  "create_population_loop 0 st = st"
| "create_population_loop (Suc i) st =
     (case create_population_loop i st of (h, population_list, g) \<Rightarrow>
        (let c = length h; h1 = h @ [Chromosome] in
         case set_random_weights h1 c g of (h2, g') \<Rightarrow> (h2, population_list @ [c], g')))"

definition create_population :: "heap \<Rightarrow> nat \<Rightarrow> rng \<Rightarrow> heap \<times> ref list \<times> rng" where
  "create_population h n g = create_population_loop n (h, [], g)"

section \<open>Crossover\<close>

text \<open>
  The two ways in which \<open>crossover\<close> writes gene \<open>i\<close> of a child. Mutation reads the
  child's own gene and adds \<open>randint(0, 10)\<close>; the copy reads the parent's gene. Either
  raises \<open>IndexError\<close> when a list is too short.
\<close>

definition mutate_gene :: "heap \<Rightarrow> ref \<Rightarrow> nat \<Rightarrow> rng \<Rightarrow> error + (heap \<times> rng)" where
  "mutate_gene h child i g =
     (if i < length (weights (h ! child)) then
        (case randint 0 10 g of (r, g') \<Rightarrow>
           Inr (set_weight h child i (weights (h ! child) ! i + real_of_int r), g'))
      else Inl IndexError)"

definition copy_gene :: "heap \<Rightarrow> ref \<Rightarrow> ref \<Rightarrow> nat \<Rightarrow> rng \<Rightarrow> error + (heap \<times> rng)" where
  "copy_gene h child parent i g =
     (if i < length (weights (h ! parent)) \<and> i < length (weights (h ! child)) then
        Inr (set_weight h child i (weights (h ! parent) ! i), g)
      else Inl IndexError)"

text \<open>
  The body of the loop of \<open>crossover\<close> for gene \<open>i\<close>, with \<open>p = 0.5\<close>: the two rolls, then
  the conditional that writes the gene of \<open>child1\<close> and the one that writes the gene of
  \<open>child2\<close>.
\<close>

definition write_child1 ::
  "int \<Rightarrow> int \<Rightarrow> ref \<Rightarrow> ref \<Rightarrow> ref \<Rightarrow> nat \<Rightarrow> real \<Rightarrow> heap \<Rightarrow> rng \<Rightarrow> error + (heap \<times> rng)" where
  "write_child1 cut1 cut2 chromosome1 chromosome2 child1 i mut1 h g =
     (if mut1 \<le> 0.5 then mutate_gene h child1 i g
      else if int i < cut1 then copy_gene h child1 chromosome1 i g
      else if cut1 \<le> int i \<and> int i < cut2 then copy_gene h child1 chromosome2 i g
      else copy_gene h child1 chromosome1 i g)"

definition write_child2 ::
  "int \<Rightarrow> int \<Rightarrow> ref \<Rightarrow> ref \<Rightarrow> ref \<Rightarrow> nat \<Rightarrow> real \<Rightarrow> heap \<Rightarrow> rng \<Rightarrow> error + (heap \<times> rng)" where
  "write_child2 cut1 cut2 chromosome1 chromosome2 child2 i mut2 h g =
     (if mut2 \<le> 0.5 then mutate_gene h child2 i g
      else if int i < cut1 then copy_gene h child2 chromosome2 i g
      else if cut1 \<le> int i \<and> int i < cut2 then copy_gene h child2 chromosome1 i g
      else copy_gene h child2 chromosome2 i g)"

definition crossover_gene ::
  "int \<Rightarrow> int \<Rightarrow> ref \<Rightarrow> ref \<Rightarrow> ref \<Rightarrow> ref \<Rightarrow> nat \<Rightarrow> heap \<times> rng \<Rightarrow> error + (heap \<times> rng)" where
  "crossover_gene cut1 cut2 chromosome1 chromosome2 child1 child2 i st =
     (case st of (h, g) \<Rightarrow>
       (case uniform 0 1 g of (mut1, ga) \<Rightarrow>
         (case uniform 0 1 ga of (mut2, gb) \<Rightarrow>
           (case write_child1 cut1 cut2 chromosome1 chromosome2 child1 i mut1 h gb of
              Inl e \<Rightarrow> Inl e
            | Inr (h', gc) \<Rightarrow>
                write_child2 cut1 cut2 chromosome1 chromosome2 child2 i mut2 h' gc))))"

text \<open>\<open>crossover_loop \<dots> n\<close> is the state after the genes \<open>0, \<dots>, n - 1\<close>.\<close>

fun crossover_loop ::
  "int \<Rightarrow> int \<Rightarrow> ref \<Rightarrow> ref \<Rightarrow> ref \<Rightarrow> ref \<Rightarrow> nat \<Rightarrow> heap \<times> rng \<Rightarrow> error + (heap \<times> rng)" where
  "crossover_loop cut1 cut2 chromosome1 chromosome2 child1 child2 0 st = Inr st"
| "crossover_loop cut1 cut2 chromosome1 chromosome2 child1 child2 (Suc i) st =
     (case crossover_loop cut1 cut2 chromosome1 chromosome2 child1 child2 i st of
        Inl e \<Rightarrow> Inl e
      | Inr st' \<Rightarrow> crossover_gene cut1 cut2 chromosome1 chromosome2 child1 child2 i st')"

text \<open>
  \<open>crossover\<close> draws the two cut points, allocates the two children and runs the loop
  over \<open>range(len(chromosome1.weights))\<close>. It returns the references of the children,
  with the new store and random source.
\<close>

definition crossover :: "heap \<Rightarrow> ref \<Rightarrow> ref \<Rightarrow> rng \<Rightarrow> error + (heap \<times> ref list \<times> rng)" where
  "crossover h chromosome1 chromosome2 g =
     (case randint 0 3 g of (cut1, g1) \<Rightarrow>
       (case randint 4 6 g1 of (cut2, g2) \<Rightarrow>
         (let child1 = length h; h1 = h @ [Chromosome];
              child2 = length h1; h2 = h1 @ [Chromosome] in
          (case crossover_loop cut1 cut2 chromosome1 chromosome2 child1 child2
                  (length (weights (h2 ! chromosome1))) (h2, g2) of
             Inl e \<Rightarrow> Inl e
           | Inr (h3, g3) \<Rightarrow> Inr (h3, [child1, child2], g3)))))"

text \<open>
  The draws that the loop of \<open>crossover\<close> makes for one gene, read from the random source
  \<open>g\<close> at the start of that iteration: the two mutation rolls, the increment that child 1
  receives if it mutates, the source after child 1, the increment that child 2 receives if
  it mutates, and the source after the iteration. \<open>gene_rng g i\<close> is the source at the
  start of gene \<open>i\<close> when the loop starts with \<open>g\<close>.
\<close>

definition mut1 :: "rng \<Rightarrow> real" where
  "mut1 g = fst (uniform 0 1 g)"

definition mut2 :: "rng \<Rightarrow> real" where
  "mut2 g = fst (uniform 0 1 (snd (uniform 0 1 g)))"

definition inc1 :: "rng \<Rightarrow> int" where
  "inc1 g = fst (randint 0 10 (snd (uniform 0 1 (snd (uniform 0 1 g)))))"

definition after1 :: "rng \<Rightarrow> rng" where
  "after1 g =
     (if mut1 g \<le> 0.5 then snd (randint 0 10 (snd (uniform 0 1 (snd (uniform 0 1 g)))))
      else snd (uniform 0 1 (snd (uniform 0 1 g))))"

definition inc2 :: "rng \<Rightarrow> int" where
  "inc2 g = fst (randint 0 10 (after1 g))"

definition after2 :: "rng \<Rightarrow> rng" where
  "after2 g = (if mut2 g \<le> 0.5 then snd (randint 0 10 (after1 g)) else after1 g)"

fun gene_rng :: "rng \<Rightarrow> nat \<Rightarrow> rng" where
  "gene_rng g 0 = g"
| "gene_rng g (Suc i) = after2 (gene_rng g i)"

text \<open>
  The segment rule in the spec's words: a gene with index below \<open>cut1\<close> or from \<open>cut2\<close> on
  comes from the first parent of the child's assignment, a gene in between from the second.
\<close>

definition segment_gene :: "int \<Rightarrow> int \<Rightarrow> real list \<Rightarrow> real list \<Rightarrow> nat \<Rightarrow> real" where
  "segment_gene cut1 cut2 first second i =
     (if int i < cut1 \<or> cut2 \<le> int i then first ! i else second ! i)"

text \<open>
  The value of gene \<open>i\<close> of a child: the default gene plus the increment when the roll
  is at most 0.5, the gene given by the segment rule otherwise.
\<close>

definition child_gene ::
  "real \<Rightarrow> int \<Rightarrow> int \<Rightarrow> int \<Rightarrow> real list \<Rightarrow> real list \<Rightarrow> nat \<Rightarrow> real" where
  "child_gene roll inc cut1 cut2 first second i =
     (if roll \<le> 0.5 then weights Chromosome ! i + real_of_int inc
      else segment_gene cut1 cut2 first second i)"

text \<open>
  The cut points that \<open>crossover\<close> draws from the source \<open>g\<close>, the source with which its
  loop starts, and the two children in closed form, for parents with the weight vectors
  \<open>w1\<close> and \<open>w2\<close>. That \<open>crossover\<close> computes these children is proved below.
\<close>

definition cut1_of :: "rng \<Rightarrow> int" where
  "cut1_of g = fst (randint 0 3 g)"

definition cut2_of :: "rng \<Rightarrow> int" where
  "cut2_of g = fst (randint 4 6 (snd (randint 0 3 g)))"

definition loop_rng :: "rng \<Rightarrow> rng" where
  "loop_rng g = snd (randint 4 6 (snd (randint 0 3 g)))"

definition offspring1 :: "real list \<Rightarrow> real list \<Rightarrow> rng \<Rightarrow> chromosome" where
  "offspring1 w1 w2 g =
     \<lparr>weights = map (\<lambda>i. child_gene (mut1 (gene_rng (loop_rng g) i)) (inc1 (gene_rng (loop_rng g) i))
                          (cut1_of g) (cut2_of g) w1 w2 i) [0..<7],
      fitness = 0\<rparr>"

definition offspring2 :: "real list \<Rightarrow> real list \<Rightarrow> rng \<Rightarrow> chromosome" where
  "offspring2 w1 w2 g =
     \<lparr>weights = map (\<lambda>i. child_gene (mut2 (gene_rng (loop_rng g) i)) (inc2 (gene_rng (loop_rng g) i))
                          (cut1_of g) (cut2_of g) w2 w1 i) [0..<7],
      fitness = 0\<rparr>"

text \<open>
  An example for \<open>crossover\<close>: two parents, and a sequence of raw draws that gives the cut
  points 2 and 5 and makes child 1 mutate genes 1 and 4 and child 2 mutate genes 2 and 4.
\<close>

definition example_draws :: "nat \<Rightarrow> nat" where
  "example_draws k = (if k < 20 then [2, 1, 9007199254740991, 9007199254740991, 0, 9007199254740991, 3,
    9007199254740991, 0, 12, 9007199254740991, 9007199254740991, 0, 0, 10, 0,
    9007199254740991, 9007199254740991, 9007199254740991, 9007199254740991] ! k else 0)"

definition example_parents :: heap where "example_parents = [\<lparr>weights = [11, 12, 13, 14, 15, 16, 17], fitness = 4\<rparr>,
           \<lparr>weights = [21, 22, 23, 24, 25, 26, 27], fitness = 6\<rparr>]"

text \<open>
  \<open>children_loop half1 half2 n\<close> is the state (store, population, random source) after
  the first \<open>n\<close> iterations of the loop of \<open>add_children\<close>. \<open>half1[i]\<close> and \<open>half2[i]\<close>
  exist for every \<open>i < mid\<close>, since \<open>half1\<close> has \<open>mid\<close> elements and \<open>half2\<close> at least as
  many.
\<close>

fun children_loop ::
  "ref list \<Rightarrow> ref list \<Rightarrow> nat \<Rightarrow> heap \<times> ref list \<times> rng \<Rightarrow> error + (heap \<times> ref list \<times> rng)" where
  "children_loop half1 half2 0 st = Inr st"
| "children_loop half1 half2 (Suc i) st =
     (case children_loop half1 half2 i st of
        Inl e \<Rightarrow> Inl e
      | Inr (h, population, g) \<Rightarrow>
          (case crossover h (half1 ! i) (half2 ! i) g of
             Inl e \<Rightarrow> Inl e
           | Inr (h', children, g') \<Rightarrow> Inr (h', population @ children, g')))"

text \<open>
  \<open>add_children\<close> changes the list \<open>population\<close> in place; the model returns the new
  list.
\<close>

definition add_children :: "heap \<Rightarrow> ref list \<Rightarrow> rng \<Rightarrow> error + (heap \<times> ref list \<times> rng)" where
  "add_children h population g =
     (case shuffle population g of (population', g') \<Rightarrow>
        (let mid = length population' div 2;
             half1 = take mid population';
             half2 = drop mid population'
         in children_loop half1 half2 mid (h, population', g')))"

text \<open>
  The loop of \<open>add_children\<close> in closed form. \<open>children_rng g i\<close> is the random source before
  the crossover of pair \<open>i\<close>, when the loop starts with \<open>g\<close>: each crossover draws its two
  cut points and then the draws of its 7 genes. \<open>new_children h half1 half2 g n\<close> are the
  objects that the first \<open>n\<close> crossovers allocate, in the order of allocation: for each pair
  the two children of \<open>half1[i]\<close> and \<open>half2[i]\<close>. That the loop computes them is proved below.
\<close>

fun children_rng :: "rng \<Rightarrow> nat \<Rightarrow> rng" where
  "children_rng g 0 = g"
| "children_rng g (Suc i) = gene_rng (loop_rng (children_rng g i)) 7"

definition pair_children :: "heap \<Rightarrow> ref \<Rightarrow> ref \<Rightarrow> rng \<Rightarrow> chromosome list" where
  "pair_children h chromosome1 chromosome2 g =
     [offspring1 (weights (h ! chromosome1)) (weights (h ! chromosome2)) g,
      offspring2 (weights (h ! chromosome1)) (weights (h ! chromosome2)) g]"

definition new_children :: "heap \<Rightarrow> ref list \<Rightarrow> ref list \<Rightarrow> rng \<Rightarrow> nat \<Rightarrow> chromosome list" where
  "new_children h half1 half2 g n =
     concat (map (\<lambda>i. pair_children h (half1 ! i) (half2 ! i) (children_rng g i)) [0..<n])"

section \<open>Evaluation of a population, selection, average\<close>

fun evaluate_population :: "heap \<Rightarrow> ref list \<Rightarrow> real list list \<Rightarrow> error + heap" where
  "evaluate_population h [] data = Inr h"
| "evaluate_population h (chromosome # rest) data =
     (case evaluate_fitness h chromosome data of
        Inl e \<Rightarrow> Inl e
      | Inr h' \<Rightarrow> evaluate_population h' rest data)"

text \<open>
  The linear scan for the best individual: \<open>best_scan h best xs\<close> continues the scan
  over \<open>xs\<close> with the current \<open>best_chromosome\<close>.
\<close>

fun best_scan :: "heap \<Rightarrow> ref \<Rightarrow> ref list \<Rightarrow> ref" where
  "best_scan h best [] = best"
| "best_scan h best (x # xs) =
     best_scan h (if fitness (h ! x) > fitness (h ! best) then x else best) xs"

text \<open>
  \<open>select_loop h n\<close> is the state (\<open>fittest\<close>, \<open>population\<close>, random source) after the
  first \<open>n\<close> iterations of the loop of \<open>select_fittest\<close>. On an empty \<open>population\<close>,
  \<open>randint(0, -1)\<close> raises \<open>ValueError\<close> and \<open>population[0]\<close> raises \<open>IndexError\<close>.
  \<open>population.remove(x)\<close> removes the first occurrence of \<open>x\<close>, which is present here.
\<close>

fun select_loop ::
  "heap \<Rightarrow> nat \<Rightarrow> ref list \<times> ref list \<times> rng \<Rightarrow> error + (ref list \<times> ref list \<times> rng)" where
  "select_loop h 0 st = Inr st"
| "select_loop h (Suc c) st =
     (case select_loop h c st of
        Inl e \<Rightarrow> Inl e
      | Inr (fittest, population, g) \<Rightarrow>
          (case uniform 0 1 g of (u, g1) \<Rightarrow>
             if u \<le> 0.1 then
               (if population = [] then Inl ValueError
                else
                  (case randint 0 (int (length population) - 1) g1 of (k, g2) \<Rightarrow>
                     (let rnd_chromosome = population ! nat k in
                      Inr (fittest @ [rnd_chromosome], remove1 rnd_chromosome population, g2))))
             else
               (if population = [] then Inl IndexError
                else
                  (let best_chromosome = best_scan h (population ! 0) population in
                   Inr (fittest @ [best_chromosome], remove1 best_chromosome population, g1)))))"

text \<open>
  \<open>select_fittest\<close> returns \<open>fittest\<close>; the model also returns what is left of the list
  \<open>population\<close>, which the function changes in place. The number of iterations is
  \<open>len(population) / 2\<close>, an integer division evaluated once before the loop.
\<close>

definition select_fittest ::
  "heap \<Rightarrow> ref list \<Rightarrow> rng \<Rightarrow> error + (ref list \<times> ref list \<times> rng)" where
  "select_fittest h population g = select_loop h (length population div 2) ([], population, g)"

fun fit_sum :: "heap \<Rightarrow> int \<Rightarrow> ref list \<Rightarrow> int" where
  "fit_sum h acc [] = acc"
| "fit_sum h acc (chromosome # rest) = fit_sum h (acc + fitness (h ! chromosome)) rest"

text \<open>\<open>fit_sum / float(total)\<close> raises \<open>ZeroDivisionError\<close> when \<open>total\<close> is 0.\<close>

definition avg_fitness :: "heap \<Rightarrow> ref list \<Rightarrow> error + real" where
  "avg_fitness h population =
     (let total = length population in
      if real total = 0 then Inl ZeroDivisionError
      else Inr (real_of_int (fit_sum h 0 population) / real total))"

section \<open>The evolution loop\<close>

text \<open>
  The statistics file is modelled as the list of the numbers written to it, and the
  progress messages as the list of the printed iteration numbers.
  \<open>write_avg\<close> is the statement \<open>f.write(str(avg_fitness(population)) + "\n") if statistics else None\<close>.
\<close>

definition write_avg :: "bool \<Rightarrow> heap \<Rightarrow> ref list \<Rightarrow> real list \<Rightarrow> error + real list" where
  "write_avg statistics h population f =
     (if statistics then
        (case avg_fitness h population of Inl e \<Rightarrow> Inl e | Inr a \<Rightarrow> Inr (f @ [a]))
      else Inr f)"

text \<open>
  \<open>optimize_loop data statistics n\<close> is the state (store, population, random source,
  statistics, progress) after the first \<open>n\<close> iterations of the loop of \<open>optimize\<close>.
\<close>

fun optimize_loop ::
  "real list list \<Rightarrow> bool \<Rightarrow> nat \<Rightarrow> heap \<times> ref list \<times> rng \<times> real list \<times> nat list
     \<Rightarrow> error + (heap \<times> ref list \<times> rng \<times> real list \<times> nat list)" where
  "optimize_loop data statistics 0 st = Inr st"
| "optimize_loop data statistics (Suc i) st =
     (case optimize_loop data statistics i st of
        Inl e \<Rightarrow> Inl e
      | Inr (h, population, g, f, out) \<Rightarrow>
          (case add_children h population g of
             Inl e \<Rightarrow> Inl e
           | Inr (h1, population1, g1) \<Rightarrow>
               (case evaluate_population h1 population1 data of
                  Inl e \<Rightarrow> Inl e
                | Inr h2 \<Rightarrow>
                    (case select_fittest h2 population1 g1 of
                       Inl e \<Rightarrow> Inl e
                     | Inr (fittest, rest, g2) \<Rightarrow>
                         (case write_avg statistics h2 fittest f of
                            Inl e \<Rightarrow> Inl e
                          | Inr f' \<Rightarrow> Inr (h2, fittest, g2, f', out @ [i + 1]))))))"

definition optimize ::
  "heap \<Rightarrow> nat \<Rightarrow> nat \<Rightarrow> real list list \<Rightarrow> bool \<Rightarrow> rng
     \<Rightarrow> error + (heap \<times> ref list \<times> rng \<times> real list \<times> nat list)" where
  "optimize h initial_population iterations data statistics g =
     (case create_population h initial_population g of (h0, population, g0) \<Rightarrow>
        (case write_avg statistics h0 population [] of
           Inl e \<Rightarrow> Inl e
         | Inr f \<Rightarrow> optimize_loop data statistics iterations (h0, population, g0, f, [])))"

text \<open>
  \<open>get_optimal\<close> sorts the list in place, by decreasing fitness, and returns its first
  element. Python's sort is stable, also with \<open>reverse=True\<close>: individuals of equal
  fitness keep their order. That is the stable sort by increasing negated fitness. The
  model returns the individual and the sorted list.
\<close>

definition get_optimal :: "heap \<Rightarrow> ref list \<Rightarrow> error + (ref \<times> ref list)" where
  "get_optimal h population =
     (let population' = sort_key (\<lambda>x. - fitness (h ! x)) population in
      if population' = [] then Inl IndexError else Inr (population' ! 0, population'))"

section \<open>Well-formed populations\<close>

text \<open>
  The invariant of the spec's data model: every individual of a population is an object of
  the store and has 7 genes.
\<close>

definition valid_population :: "heap \<Rightarrow> ref list \<Rightarrow> bool" where
  "valid_population h population =
     (\<forall>c \<in> set population. c < length h \<and> length (weights (h ! c)) = 7)"

section \<open>Examples\<close>

text \<open>
  A store of four evaluated individuals with the fitness values 3, 7, 5 and 1, and a sequence
  of raw draws for \<open>select_fittest\<close>: a roll of 0 (random pick), the index 3, and a roll
  close to 1 (pick of the best).
\<close>

definition example_pool :: heap where
  "example_pool = [\<lparr>weights = replicate 7 1, fitness = 3\<rparr>, \<lparr>weights = replicate 7 2, fitness = 7\<rparr>,
                   \<lparr>weights = replicate 7 3, fitness = 5\<rparr>, \<lparr>weights = replicate 7 4, fitness = 1\<rparr>]"

definition example_select_draws :: "nat \<Rightarrow> nat" where
  "example_select_draws k = (if k < 3 then [0, 3, 9007199254740991] ! k else 0)"

text \<open>
  The population of the spec's example for \<open>get_optimal\<close>, with the fitness values 3, 7
  and 5, and one with a tie between the second and the third individual.
\<close>

definition example_trio :: heap where
  "example_trio = [\<lparr>weights = replicate 7 0, fitness = 3\<rparr>, \<lparr>weights = replicate 7 0, fitness = 7\<rparr>,
                   \<lparr>weights = replicate 7 0, fitness = 5\<rparr>]"

definition example_tied :: heap where
  "example_tied = [\<lparr>weights = replicate 7 0, fitness = 3\<rparr>, \<lparr>weights = replicate 7 1, fitness = 7\<rparr>,
                   \<lparr>weights = replicate 7 2, fitness = 7\<rparr>]"

text \<open>
  A sequence of raw draws for \<open>add_children\<close> on three individuals: the two draws of the
  shuffle, which reverses the list, then cut points 3 and 5 and rolls close to 1, so that no
  gene of the children is mutated.
\<close>

definition example_children_draws :: "nat \<Rightarrow> nat" where
  "example_children_draws k = (if k < 2 then [0, 3] ! k else 9007199254740991)"

section \<open>Properties of the fitness evaluation\<close>

lemma evaluate_sigmoid_threshold:
  "evaluate_sigmoid ws vs = (if weighted_sum 0 (zip ws vs) \<ge> 125000 then 1 else -1)"
proof (cases "weighted_sum 0 (zip ws vs) - 125000 < 0")
  case True
  then have "exp (weighted_sum 0 (zip ws vs) - 125000) < 1"
    by simp
  then have "1 / (1 + exp (weighted_sum 0 (zip ws vs) - 125000)) > 1 / 2"
    by (simp add: field_simps add_pos_pos)
  with True show ?thesis
    by (simp add: evaluate_sigmoid_def Let_def)
next
  case False
  then have "exp (- (weighted_sum 0 (zip ws vs) - 125000)) \<le> 1"
    by simp
  then have "1 / (1 + exp (- (weighted_sum 0 (zip ws vs) - 125000))) \<ge> 1 / 2"
    by (simp add: field_simps add_pos_pos)
  with False show ?thesis
    by (simp add: evaluate_sigmoid_def Let_def)
qed

lemma evaluate_sigmoid_cases: "evaluate_sigmoid ws vs = 1 \<or> evaluate_sigmoid ws vs = -1"
  by (simp add: evaluate_sigmoid_threshold)

lemma match_iff_actual:
  "((evaluate_sigmoid ws vs = 1 \<and> d \<ge> 0) \<or> (evaluate_sigmoid ws vs = -1 \<and> d < 0))
     = (evaluate_sigmoid ws vs = (if d \<ge> (0::real) then 1 else -1))"
  using evaluate_sigmoid_cases [of ws vs] by auto

lemma evaluate_loop_counts:
  assumes "well_formed data" and "n \<le> length data - 1"
  shows "\<exists>success fail. evaluate_loop ws data n = Inr (success, fail)
           \<and> success = int (length (filter (\<lambda>i. evaluate_sigmoid ws (data ! i) = actual_direction data i) [0..<n]))
           \<and> success + fail = int n"
  using assms(2)
proof (induction n)
  case 0
  show ?case by simp
next
  case (Suc n)
  then obtain success fail where st: "evaluate_loop ws data n = Inr (success, fail)"
    and s: "success = int (length (filter (\<lambda>i. evaluate_sigmoid ws (data ! i) = actual_direction data i) [0..<n]))"
    and sf: "success + fail = int n"
    by auto
  from Suc.prems have "n < length data" and "n + 1 < length data"
    by auto
  with assms(1) have rows: "3 < length (data ! n)" "3 < length (data ! (n + 1))"
    by (auto simp: well_formed_def)
  show ?case
    using st s sf rows
    by (simp add: Let_def match_iff_actual actual_direction_def)
qed

text \<open>
  C1. For every chromosome and every well-formed dataset of length \<open>L\<close>,
  \<open>evaluate_fitness\<close> returns without error and changes nothing but the fitness of that
  chromosome, which becomes the number of rows among the first \<open>L - 1\<close> whose predicted
  direction is the actual closing-price direction. The fitness is an integer between 0 and
  the number \<open>L - 1\<close> of compared rows, the success and failure counts sum to that number,
  and a dataset with fewer than 2 rows (no compared row at all) gives fitness 0.
\<close>

theorem evaluate_fitness_counts:
  assumes "well_formed data" and "chromosome < length h"
  shows "\<exists>success fail h'.
           evaluate_counts (weights (h ! chromosome)) data = Inr (success, fail)
         \<and> evaluate_fitness h chromosome data = Inr h'
         \<and> h' = h[chromosome := (h ! chromosome)\<lparr>fitness := success\<rparr>]
         \<and> fitness (h' ! chromosome) = success
         \<and> success = int (length (matching_rows (weights (h ! chromosome)) data))
         \<and> 0 \<le> success \<and> success \<le> int (length data - 1)
         \<and> 0 \<le> fail
         \<and> success + fail = int (length data - 1)
         \<and> (length data < 2 \<longrightarrow> fitness (h' ! chromosome) = 0)"
proof -
  obtain success fail where
    st: "evaluate_loop (weights (h ! chromosome)) data (length data - 1) = Inr (success, fail)"
    and s: "success = int (length (matching_rows (weights (h ! chromosome)) data))"
    and sf: "success + fail = int (length data - 1)"
    using evaluate_loop_counts [OF assms(1) order_refl, of "weights (h ! chromosome)"]
    by (auto simp: matching_rows_def)
  have "length (matching_rows (weights (h ! chromosome)) data) \<le> length [0..<length data - 1]"
    unfolding matching_rows_def by (rule length_filter_le)
  then have le: "success \<le> int (length data - 1)"
    using s by simp
  have nonneg: "0 \<le> success"
    using s by simp
  have fail: "0 \<le> fail"
    using le sf by simp
  have small: "length data < 2 \<Longrightarrow> success = 0"
    using le nonneg by simp
  show ?thesis
    using st s sf le nonneg fail small assms(2)
    by (simp add: evaluate_counts_def evaluate_fitness_def set_fitness_def)
qed

theorem evaluate_fitness_counts_witness:
  "well_formed [[0, 0, 0, 100, 0, 0, 200000], [0, 0, 0, 110, 0, 0, 0],
                [0, 0, 0, 105, 0, 0, 0], [0, 0, 0, 120, 0, 0, 0]]
   \<and> (0::nat) < length [\<lparr>weights = [1, 1, 1, 1, 1, 1, 1], fitness = 0\<rparr>]
   \<and> evaluate_counts [1, 1, 1, 1, 1, 1, 1]
        [[0, 0, 0, 100, 0, 0, 200000], [0, 0, 0, 110, 0, 0, 0],
         [0, 0, 0, 105, 0, 0, 0], [0, 0, 0, 120, 0, 0, 0]] = Inr (2, 1)
   \<and> evaluate_fitness [\<lparr>weights = [1, 1, 1, 1, 1, 1, 1], fitness = 0\<rparr>] 0
        [[0, 0, 0, 100, 0, 0, 200000], [0, 0, 0, 110, 0, 0, 0],
         [0, 0, 0, 105, 0, 0, 0], [0, 0, 0, 120, 0, 0, 0]]
       = Inr [\<lparr>weights = [1, 1, 1, 1, 1, 1, 1], fitness = 2\<rparr>]
   \<and> well_formed [[0, 0, 0, 100, 0, 0, 200000]]
   \<and> length [[0, 0, 0, 100, 0, 0, 200000 :: real]] < 2
   \<and> evaluate_fitness [\<lparr>weights = [1, 1, 1, 1, 1, 1, 1], fitness = 5\<rparr>] 0
        [[0, 0, 0, 100, 0, 0, 200000]]
       = Inr [\<lparr>weights = [1, 1, 1, 1, 1, 1, 1], fitness = 0\<rparr>]"
  using evaluate_fitness_counts [of "[[0, 0, 0, 100, 0, 0, 200000], [0, 0, 0, 110, 0, 0, 0],
                [0, 0, 0, 105, 0, 0, 0], [0, 0, 0, 120, 0, 0, 0]]" 0
          "[\<lparr>weights = [1, 1, 1, 1, 1, 1, 1], fitness = 0\<rparr>]"]
        evaluate_fitness_counts [of "[[0, 0, 0, 100, 0, 0, 200000]]" 0
          "[\<lparr>weights = [1, 1, 1, 1, 1, 1, 1], fitness = 5\<rparr>]"]
  by (simp add: well_formed_def matching_rows_def evaluate_sigmoid_threshold
        actual_direction_def)

section \<open>Properties of the random source and of crossover\<close>

lemma randint_range: "a \<le> b \<Longrightarrow> a \<le> fst (randint a b g) \<and> fst (randint a b g) \<le> b"
proof -
  assume "a \<le> b"
  then have pos: "0 < b - a + 1" by simp
  have "0 \<le> int (fst g (snd g)) mod (b - a + 1)" 
    using pos by (rule pos_mod_sign)
  moreover have "int (fst g (snd g)) mod (b - a + 1) < b - a + 1"
    using pos by (rule pos_mod_bound)
  ultimately show ?thesis
    by (simp add: randint_def random_raw_def)
qed

lemma update_prefix:
  "k < length d \<Longrightarrow> length xs = k \<Longrightarrow> (xs @ drop k d)[k := v] = (xs @ [v]) @ drop (Suc k) d"
  by (simp add: list_update_append Cons_nth_drop_Suc [symmetric])

lemma nth_prefix:
  "k < length d \<Longrightarrow> length xs = k \<Longrightarrow> (xs @ drop k d) ! k = d ! k"
  by (simp add: nth_append)

lemma crossover_gene_step:
  assumes "c1 < length h" "c2 < length h"
    and "i < length (weights (h ! c1))" "i < length (weights (h ! c2))"
    and "i < length (weights A)" "i < length (weights B)"
  shows "crossover_gene cut1 cut2 c1 c2 (length h) (Suc (length h)) i (h @ [A, B], g) =
     Inr (h @ [A\<lparr>weights := (weights A)[i :=
                   if mut1 g \<le> 0.5 then weights A ! i + real_of_int (inc1 g)
                   else segment_gene cut1 cut2 (weights (h ! c1)) (weights (h ! c2)) i]\<rparr>,
               B\<lparr>weights := (weights B)[i :=
                   if mut2 g \<le> 0.5 then weights B ! i + real_of_int (inc2 g)
                   else segment_gene cut1 cut2 (weights (h ! c2)) (weights (h ! c1)) i]\<rparr>],
          after2 g)"
  using assms
  by (simp add: crossover_gene_def write_child1_def write_child2_def mutate_gene_def copy_gene_def
      set_weight_def mut1_def mut2_def
      inc1_def inc2_def after1_def after2_def segment_gene_def nth_append list_update_append
      split: prod.splits)

lemma crossover_loop_closed:
  assumes "c1 < length h" "c2 < length h"
    and "length (weights (h ! c1)) = 7" "length (weights (h ! c2)) = 7"
    and "k \<le> 7"
  shows "crossover_loop cut1 cut2 c1 c2 (length h) (Suc (length h)) k
           (h @ [Chromosome, Chromosome], g) =
     Inr (h @ [\<lparr>weights = map (\<lambda>i. child_gene (mut1 (gene_rng g i)) (inc1 (gene_rng g i))
                                  cut1 cut2 (weights (h ! c1)) (weights (h ! c2)) i) [0..<k]
                            @ drop k (weights Chromosome),
                 fitness = 0\<rparr>,
               \<lparr>weights = map (\<lambda>i. child_gene (mut2 (gene_rng g i)) (inc2 (gene_rng g i))
                                  cut1 cut2 (weights (h ! c2)) (weights (h ! c1)) i) [0..<k]
                            @ drop k (weights Chromosome),
                 fitness = 0\<rparr>],
          gene_rng g k)"
  using assms(5)
proof (induction k)
  case 0
  show ?case by (simp add: Chromosome_def)
next
  case (Suc k)
  then have k: "k < 7" by simp
  then have kd: "k < length (weights Chromosome)" by (simp add: Chromosome_def)
  from Suc have IH: "crossover_loop cut1 cut2 c1 c2 (length h) (Suc (length h)) k
           (h @ [Chromosome, Chromosome], g) =
     Inr (h @ [\<lparr>weights = map (\<lambda>i. child_gene (mut1 (gene_rng g i)) (inc1 (gene_rng g i))
                                  cut1 cut2 (weights (h ! c1)) (weights (h ! c2)) i) [0..<k]
                            @ drop k (weights Chromosome),
                 fitness = 0\<rparr>,
               \<lparr>weights = map (\<lambda>i. child_gene (mut2 (gene_rng g i)) (inc2 (gene_rng g i))
                                  cut1 cut2 (weights (h ! c2)) (weights (h ! c1)) i) [0..<k]
                            @ drop k (weights Chromosome),
                 fitness = 0\<rparr>],
          gene_rng g k)" by simp
  show ?case
    using assms(1-4) k kd
    by (simp add: IH crossover_gene_step update_prefix nth_prefix child_gene_def)
qed

lemma crossover_result:
  assumes "c1 < length h" "c2 < length h"
    and "length (weights (h ! c1)) = 7" "length (weights (h ! c2)) = 7"
  shows "crossover h c1 c2 g =
     Inr (h @ [offspring1 (weights (h ! c1)) (weights (h ! c2)) g,
               offspring2 (weights (h ! c1)) (weights (h ! c2)) g],
          [length h, Suc (length h)], gene_rng (loop_rng g) 7)"
  using assms crossover_loop_closed [OF assms order_refl]
  by (simp add: crossover_def Let_def nth_append offspring1_def offspring2_def cut1_of_def
      cut2_of_def loop_rng_def Chromosome_def split: prod.splits)

lemma randint_pos: "randint a b (f, n) = (a + int (f n) mod (b - a + 1), (f, n + 1))"
  by (simp add: randint_def random_raw_def)

lemma uniform_pos: "uniform 0 1 (f, n) = (real (f n mod 2 ^ 53) / 2 ^ 53, (f, n + 1))"
  by (simp add: uniform_def random_float_def random_raw_def)

lemma mut1_pos: "mut1 (f, n) = real (f n mod 2 ^ 53) / 2 ^ 53"
  by (simp add: mut1_def uniform_pos)

lemma mut2_pos: "mut2 (f, n) = real (f (n + 1) mod 2 ^ 53) / 2 ^ 53"
  by (simp add: mut2_def uniform_pos)

lemma after1_pos: "after1 (f, n) = (f, if mut1 (f, n) \<le> 0.5 then n + 3 else n + 2)"
  by (simp add: after1_def uniform_pos randint_pos)

lemma inc1_pos: "inc1 (f, n) = int (f (n + 2)) mod 11"
  by (simp add: inc1_def uniform_pos randint_pos)

lemma inc2_pos: "inc2 (f, n) = int (f (snd (after1 (f, n)))) mod 11"
  by (simp add: inc2_def after1_pos randint_pos)

lemma after2_pos:
  "after2 (f, n) = (f, snd (after1 (f, n)) + (if mut2 (f, n) \<le> 0.5 then 1 else 0))"
  by (simp add: after2_def after1_pos randint_pos)

lemma upt_7: "[0..<7] = [0, 1, 2, 3, 4, 5, 6]"
  by (simp add: upt_rec)

lemma example_draws_simps:
  "example_draws 0 = 2" "example_draws 1 = 1" "example_draws (Suc 0) = 1" "example_draws 2 = 9007199254740991"
  "example_draws 3 = 9007199254740991" "example_draws 4 = 0" "example_draws 5 = 9007199254740991"
  "example_draws 6 = 3" "example_draws 7 = 9007199254740991" "example_draws 8 = 0"
  "example_draws 9 = 12" "example_draws 10 = 9007199254740991" "example_draws 11 = 9007199254740991"
  "example_draws 12 = 0" "example_draws 13 = 0" "example_draws 14 = 10" "example_draws 15 = 0"
  "example_draws 16 = 9007199254740991" "example_draws 17 = 9007199254740991"
  "example_draws 18 = 9007199254740991" "example_draws 19 = 9007199254740991"
  by (simp_all add: example_draws_def)

lemma gene_rng_numeral: "gene_rng g (numeral n) = after2 (gene_rng g (pred_numeral n))"
  by (simp add: numeral_eq_Suc)

lemmas example_eval = randint_pos uniform_pos mut1_pos mut2_pos after1_pos inc1_pos inc2_pos
  after2_pos gene_rng_numeral example_draws_simps

lemma example_cuts:
  "cut1_of (example_draws, 0) = 2" "cut2_of (example_draws, 0) = 5"
  "loop_rng (example_draws, 0) = (example_draws, 2)"
  by (simp_all add: cut1_of_def cut2_of_def loop_rng_def example_eval)

lemma example_gene_rng:
  "gene_rng (example_draws, 2) 0 = (example_draws, 2)"
  "gene_rng (example_draws, 2) 1 = (example_draws, 4)"
  "gene_rng (example_draws, 2) 2 = (example_draws, 7)"
  "gene_rng (example_draws, 2) 3 = (example_draws, 10)"
  "gene_rng (example_draws, 2) 4 = (example_draws, 12)"
  "gene_rng (example_draws, 2) 5 = (example_draws, 16)"
  "gene_rng (example_draws, 2) 6 = (example_draws, 18)"
  "gene_rng (example_draws, 2) 7 = (example_draws, 20)"
  by (simp_all add: example_eval)

lemma crossover_example:
  "crossover example_parents 0 1 (example_draws, 0) =
     Inr (example_parents @ [\<lparr>weights = [11, 3, 23, 24, 10, 16, 17], fitness = 0\<rparr>,
                             \<lparr>weights = [21, 22, 1, 14, 0, 26, 27], fitness = 0\<rparr>],
          [2, 3], (example_draws, 20))"
proof -
  have "crossover example_parents 0 1 (example_draws, 0) =
     Inr (example_parents @ [offspring1 (weights (example_parents ! 0)) (weights (example_parents ! 1)) (example_draws, 0),
               offspring2 (weights (example_parents ! 0)) (weights (example_parents ! 1)) (example_draws, 0)],
          [length example_parents, Suc (length example_parents)], gene_rng (loop_rng (example_draws, 0)) 7)"
    by (rule crossover_result) (simp_all add: example_parents_def)
  moreover have "offspring1 (weights (example_parents ! 0)) (weights (example_parents ! 1)) (example_draws, 0)
     = \<lparr>weights = [11, 3, 23, 24, 10, 16, 17], fitness = 0\<rparr>"
    by (simp add: offspring1_def upt_7 example_cuts child_gene_def segment_gene_def
        example_eval example_parents_def Chromosome_def)
  moreover have "offspring2 (weights (example_parents ! 0)) (weights (example_parents ! 1)) (example_draws, 0)
     = \<lparr>weights = [21, 22, 1, 14, 0, 26, 27], fitness = 0\<rparr>"
    by (simp add: offspring2_def upt_7 example_cuts child_gene_def segment_gene_def
        example_eval example_parents_def Chromosome_def)
  ultimately show ?thesis
    by (simp add: example_cuts example_eval example_parents_def)
qed

lemma offspring1_nth:
  "i < 7 \<Longrightarrow> weights (offspring1 w1 w2 g) ! i =
     child_gene (mut1 (gene_rng (loop_rng g) i)) (inc1 (gene_rng (loop_rng g) i))
       (cut1_of g) (cut2_of g) w1 w2 i"
  by (simp add: offspring1_def)

lemma offspring2_nth:
  "i < 7 \<Longrightarrow> weights (offspring2 w1 w2 g) ! i =
     child_gene (mut2 (gene_rng (loop_rng g) i)) (inc2 (gene_rng (loop_rng g) i))
       (cut1_of g) (cut2_of g) w2 w1 i"
  by (simp add: offspring2_def)

lemma cut_ranges: "0 \<le> cut1_of g \<and> cut1_of g \<le> 3 \<and> 4 \<le> cut2_of g \<and> cut2_of g \<le> 6"
  using randint_range [of 0 3 g] randint_range [of 4 6 "snd (randint 0 3 g)"]
  by (simp add: cut1_of_def cut2_of_def)

lemma inc_ranges: "0 \<le> inc1 g \<and> inc1 g \<le> 10 \<and> 0 \<le> inc2 g \<and> inc2 g \<le> 10"
  using randint_range [of 0 10 "snd (uniform 0 1 (snd (uniform 0 1 g)))"]
    randint_range [of 0 10 "after1 g"]
  by (simp add: inc1_def inc2_def)

text \<open>
  C2. For every pair of parents (valid references, 7 genes each) and every random source,
  \<open>crossover\<close> returns two children; its cut points are \<open>cut1\<close> in \<open>[0, 3]\<close> and \<open>cut2\<close> in
  \<open>[4, 6]\<close>; and every gene \<open>i\<close> of child A whose mutation roll is above 0.5 equals parent
  A's gene when \<open>i < cut1\<close> or \<open>i \<ge> cut2\<close> and parent B's gene when \<open>cut1 \<le> i < cut2\<close>, while
  child B uses the mirrored mapping. The rolls of gene \<open>i\<close> are those that the loop reads at
  iteration \<open>i\<close>, \<open>mut1\<close> and \<open>mut2\<close> of \<open>gene_rng (loop_rng g) i\<close>.
\<close>

theorem crossover_two_point:
  assumes "chromosome1 < length h" and "chromosome2 < length h"
    and "length (weights (h ! chromosome1)) = 7" and "length (weights (h ! chromosome2)) = 7"
  shows "\<exists>h' g'. crossover h chromosome1 chromosome2 g = Inr (h', [length h, Suc (length h)], g')
    \<and> 0 \<le> cut1_of g \<and> cut1_of g \<le> 3 \<and> 4 \<le> cut2_of g \<and> cut2_of g \<le> 6
    \<and> (\<forall>i<7.
         (\<not> mut1 (gene_rng (loop_rng g) i) \<le> 0.5 \<longrightarrow>
            (int i < cut1_of g \<or> cut2_of g \<le> int i \<longrightarrow>
               weights (h' ! length h) ! i = weights (h ! chromosome1) ! i)
          \<and> (cut1_of g \<le> int i \<and> int i < cut2_of g \<longrightarrow>
               weights (h' ! length h) ! i = weights (h ! chromosome2) ! i))
       \<and> (\<not> mut2 (gene_rng (loop_rng g) i) \<le> 0.5 \<longrightarrow>
            (int i < cut1_of g \<or> cut2_of g \<le> int i \<longrightarrow>
               weights (h' ! Suc (length h)) ! i = weights (h ! chromosome2) ! i)
          \<and> (cut1_of g \<le> int i \<and> int i < cut2_of g \<longrightarrow>
               weights (h' ! Suc (length h)) ! i = weights (h ! chromosome1) ! i)))"
proof -
  have "\<And>i. i < 7 \<Longrightarrow> \<not> mut1 (gene_rng (loop_rng g) i) \<le> 0.5 \<Longrightarrow>
      weights (offspring1 (weights (h ! chromosome1)) (weights (h ! chromosome2)) g) ! i
        = segment_gene (cut1_of g) (cut2_of g) (weights (h ! chromosome1)) (weights (h ! chromosome2)) i"
    by (simp add: offspring1_nth child_gene_def)
  moreover have "\<And>i. i < 7 \<Longrightarrow> \<not> mut2 (gene_rng (loop_rng g) i) \<le> 0.5 \<Longrightarrow>
      weights (offspring2 (weights (h ! chromosome1)) (weights (h ! chromosome2)) g) ! i
        = segment_gene (cut1_of g) (cut2_of g) (weights (h ! chromosome2)) (weights (h ! chromosome1)) i"
    by (simp add: offspring2_nth child_gene_def)
  ultimately show ?thesis
    using cut_ranges [of g]
    by (simp add: crossover_result [OF assms] nth_append segment_gene_def)
qed

theorem crossover_two_point_witness:
  "(0::nat) < length example_parents \<and> (1::nat) < length example_parents
   \<and> length (weights (example_parents ! 0)) = 7 \<and> length (weights (example_parents ! 1)) = 7
   \<and> cut1_of (example_draws, 0) = 2 \<and> cut2_of (example_draws, 0) = 5
   \<and> \<not> mut1 (gene_rng (loop_rng (example_draws, 0)) 0) \<le> 0.5
   \<and> \<not> mut1 (gene_rng (loop_rng (example_draws, 0)) 2) \<le> 0.5
   \<and> \<not> mut2 (gene_rng (loop_rng (example_draws, 0)) 3) \<le> 0.5
   \<and> \<not> mut2 (gene_rng (loop_rng (example_draws, 0)) 6) \<le> 0.5
   \<and> (\<exists>h' g'. crossover example_parents 0 1 (example_draws, 0) = Inr (h', [2, 3], g')
        \<and> weights (h' ! 2) ! 0 = 11 \<and> weights (h' ! 2) ! 2 = 23
        \<and> weights (h' ! 3) ! 3 = 14 \<and> weights (h' ! 3) ! 6 = 27)"
proof -
  have hyps: "(0::nat) < length example_parents" "(1::nat) < length example_parents"
    "length (weights (example_parents ! 0)) = 7" "length (weights (example_parents ! 1)) = 7"
    by (simp_all add: example_parents_def)
  have rolls: "\<not> mut1 (gene_rng (loop_rng (example_draws, 0)) 0) \<le> 0.5"
    "\<not> mut1 (gene_rng (loop_rng (example_draws, 0)) 2) \<le> 0.5"
    "\<not> mut2 (gene_rng (loop_rng (example_draws, 0)) 3) \<le> 0.5"
    "\<not> mut2 (gene_rng (loop_rng (example_draws, 0)) 6) \<le> 0.5"
    by (simp_all add: example_cuts example_eval)
  obtain h' g' where res: "crossover example_parents 0 1 (example_draws, 0) = Inr (h', [2, 3], g')"
    and genes: "\<forall>i<7.
         (\<not> mut1 (gene_rng (loop_rng (example_draws, 0)) i) \<le> 0.5 \<longrightarrow>
            (int i < cut1_of (example_draws, 0) \<or> cut2_of (example_draws, 0) \<le> int i \<longrightarrow>
               weights (h' ! length example_parents) ! i = weights (example_parents ! 0) ! i)
          \<and> (cut1_of (example_draws, 0) \<le> int i \<and> int i < cut2_of (example_draws, 0) \<longrightarrow>
               weights (h' ! length example_parents) ! i = weights (example_parents ! 1) ! i))
       \<and> (\<not> mut2 (gene_rng (loop_rng (example_draws, 0)) i) \<le> 0.5 \<longrightarrow>
            (int i < cut1_of (example_draws, 0) \<or> cut2_of (example_draws, 0) \<le> int i \<longrightarrow>
               weights (h' ! Suc (length example_parents)) ! i = weights (example_parents ! 1) ! i)
          \<and> (cut1_of (example_draws, 0) \<le> int i \<and> int i < cut2_of (example_draws, 0) \<longrightarrow>
               weights (h' ! Suc (length example_parents)) ! i = weights (example_parents ! 0) ! i))"
    using crossover_two_point [OF hyps, of "(example_draws, 0)"]
    by (auto simp: example_parents_def)
  have len: "length example_parents = 2"
    by (simp add: example_parents_def)
  have "weights (h' ! 2) ! 0 = 11"
    using genes [rule_format, of 0] rolls(1) by (simp add: example_cuts len) (simp add: example_parents_def)
  moreover have "weights (h' ! 2) ! 2 = 23"
    using genes [rule_format, of 2] rolls(2) by (simp add: example_cuts len) (simp add: example_parents_def)
  moreover have "weights (h' ! 3) ! 3 = 14"
    using genes [rule_format, of 3] rolls(3) by (simp add: example_cuts len numeral_3_eq_3) (simp add: example_parents_def)
  moreover have "weights (h' ! 3) ! 6 = 27"
    using genes [rule_format, of 6] rolls(4) by (simp add: example_cuts len numeral_3_eq_3) (simp add: example_parents_def)
  ultimately show ?thesis
    using hyps rolls res by (simp add: example_cuts)
qed

text \<open>
  C3. In \<open>crossover\<close>, for every gene index and each child independently, exactly one of
  mutation and parental copy happens. When the child's roll is at most 0.5 the gene becomes
  the default gene of the new child plus the drawn integer of \<open>[0, 10]\<close>: a non-negative
  increment, and a value in which no parent occurs. Otherwise the gene is the parent gene that
  the segment rule selects, with no increment.
\<close>

theorem crossover_mutation_exclusive:
  assumes "chromosome1 < length h" and "chromosome2 < length h"
    and "length (weights (h ! chromosome1)) = 7" and "length (weights (h ! chromosome2)) = 7"
  shows "\<exists>h' g'. crossover h chromosome1 chromosome2 g = Inr (h', [length h, Suc (length h)], g')
    \<and> (\<forall>i<7.
         (mut1 (gene_rng (loop_rng g) i) \<le> 0.5 \<longrightarrow>
            weights (h' ! length h) ! i
              = weights Chromosome ! i + real_of_int (inc1 (gene_rng (loop_rng g) i))
            \<and> 0 \<le> inc1 (gene_rng (loop_rng g) i) \<and> inc1 (gene_rng (loop_rng g) i) \<le> 10
            \<and> weights (h' ! length h) ! i \<ge> weights Chromosome ! i)
       \<and> (\<not> mut1 (gene_rng (loop_rng g) i) \<le> 0.5 \<longrightarrow>
            weights (h' ! length h) ! i
              = segment_gene (cut1_of g) (cut2_of g) (weights (h ! chromosome1)) (weights (h ! chromosome2)) i
            \<and> weights (h' ! length h) ! i \<in> {weights (h ! chromosome1) ! i, weights (h ! chromosome2) ! i})
       \<and> (mut2 (gene_rng (loop_rng g) i) \<le> 0.5 \<longrightarrow>
            weights (h' ! Suc (length h)) ! i
              = weights Chromosome ! i + real_of_int (inc2 (gene_rng (loop_rng g) i))
            \<and> 0 \<le> inc2 (gene_rng (loop_rng g) i) \<and> inc2 (gene_rng (loop_rng g) i) \<le> 10
            \<and> weights (h' ! Suc (length h)) ! i \<ge> weights Chromosome ! i)
       \<and> (\<not> mut2 (gene_rng (loop_rng g) i) \<le> 0.5 \<longrightarrow>
            weights (h' ! Suc (length h)) ! i
              = segment_gene (cut1_of g) (cut2_of g) (weights (h ! chromosome2)) (weights (h ! chromosome1)) i
            \<and> weights (h' ! Suc (length h)) ! i \<in> {weights (h ! chromosome1) ! i, weights (h ! chromosome2) ! i}))"
proof -
  have seg: "\<And>c1 c2 (a::real list) b i. segment_gene c1 c2 a b i \<in> {a ! i, b ! i}"
    by (simp add: segment_gene_def)
  have "\<And>i. i < 7 \<Longrightarrow>
      weights (offspring1 (weights (h ! chromosome1)) (weights (h ! chromosome2)) g) ! i
        = (if mut1 (gene_rng (loop_rng g) i) \<le> 0.5
           then weights Chromosome ! i + real_of_int (inc1 (gene_rng (loop_rng g) i))
           else segment_gene (cut1_of g) (cut2_of g) (weights (h ! chromosome1)) (weights (h ! chromosome2)) i)"
    by (simp add: offspring1_nth child_gene_def)
  moreover have "\<And>i. i < 7 \<Longrightarrow>
      weights (offspring2 (weights (h ! chromosome1)) (weights (h ! chromosome2)) g) ! i
        = (if mut2 (gene_rng (loop_rng g) i) \<le> 0.5
           then weights Chromosome ! i + real_of_int (inc2 (gene_rng (loop_rng g) i))
           else segment_gene (cut1_of g) (cut2_of g) (weights (h ! chromosome2)) (weights (h ! chromosome1)) i)"
    by (simp add: offspring2_nth child_gene_def)
  ultimately show ?thesis
    using inc_ranges seg [of "cut1_of g" "cut2_of g" "weights (h ! chromosome1)" "weights (h ! chromosome2)"]
      seg [of "cut1_of g" "cut2_of g" "weights (h ! chromosome2)" "weights (h ! chromosome1)"]
    by (simp add: crossover_result [OF assms] nth_append) blast
qed

theorem crossover_mutation_exclusive_witness:
  "(0::nat) < length example_parents \<and> (1::nat) < length example_parents
   \<and> length (weights (example_parents ! 0)) = 7 \<and> length (weights (example_parents ! 1)) = 7
   \<and> mut1 (gene_rng (loop_rng (example_draws, 0)) 1) \<le> 0.5
   \<and> inc1 (gene_rng (loop_rng (example_draws, 0)) 1) = 3
   \<and> \<not> mut1 (gene_rng (loop_rng (example_draws, 0)) 0) \<le> 0.5
   \<and> mut2 (gene_rng (loop_rng (example_draws, 0)) 2) \<le> 0.5
   \<and> inc2 (gene_rng (loop_rng (example_draws, 0)) 2) = 1
   \<and> \<not> mut2 (gene_rng (loop_rng (example_draws, 0)) 0) \<le> 0.5
   \<and> (\<exists>h' g'. crossover example_parents 0 1 (example_draws, 0) = Inr (h', [2, 3], g')
        \<and> weights (h' ! 2) ! 1 = 3 \<and> weights (h' ! 2) ! 0 = 11
        \<and> weights (h' ! 3) ! 2 = 1 \<and> weights (h' ! 3) ! 0 = 21)"
proof -
  have hyps: "(0::nat) < length example_parents" "(1::nat) < length example_parents"
    "length (weights (example_parents ! 0)) = 7" "length (weights (example_parents ! 1)) = 7"
    by (simp_all add: example_parents_def)
  have rolls: "mut1 (gene_rng (loop_rng (example_draws, 0)) 1) \<le> 0.5"
    "inc1 (gene_rng (loop_rng (example_draws, 0)) 1) = 3"
    "\<not> mut1 (gene_rng (loop_rng (example_draws, 0)) 0) \<le> 0.5"
    "mut2 (gene_rng (loop_rng (example_draws, 0)) 2) \<le> 0.5"
    "inc2 (gene_rng (loop_rng (example_draws, 0)) 2) = 1"
    "\<not> mut2 (gene_rng (loop_rng (example_draws, 0)) 0) \<le> 0.5"
    by (simp_all add: example_cuts example_eval)
  have len: "length example_parents = 2"
    by (simp add: example_parents_def)
  obtain h' g' where res: "crossover example_parents 0 1 (example_draws, 0) = Inr (h', [2, 3], g')"
    and m1: "\<And>i. i < 7 \<Longrightarrow> mut1 (gene_rng (loop_rng (example_draws, 0)) i) \<le> 0.5 \<Longrightarrow>
               weights (h' ! 2) ! i
                 = weights Chromosome ! i + real_of_int (inc1 (gene_rng (loop_rng (example_draws, 0)) i))"
    and c1: "\<And>i. i < 7 \<Longrightarrow> \<not> mut1 (gene_rng (loop_rng (example_draws, 0)) i) \<le> 0.5 \<Longrightarrow>
               weights (h' ! 2) ! i
                 = segment_gene 2 5 (weights (example_parents ! 0)) (weights (example_parents ! 1)) i"
    and m2: "\<And>i. i < 7 \<Longrightarrow> mut2 (gene_rng (loop_rng (example_draws, 0)) i) \<le> 0.5 \<Longrightarrow>
               weights (h' ! 3) ! i
                 = weights Chromosome ! i + real_of_int (inc2 (gene_rng (loop_rng (example_draws, 0)) i))"
    and c2: "\<And>i. i < 7 \<Longrightarrow> \<not> mut2 (gene_rng (loop_rng (example_draws, 0)) i) \<le> 0.5 \<Longrightarrow>
               weights (h' ! 3) ! i
                 = segment_gene 2 5 (weights (example_parents ! 1)) (weights (example_parents ! 0)) i"
    using crossover_mutation_exclusive [OF hyps, of "(example_draws, 0)"]
    unfolding len example_cuts
    by (auto simp: numeral_2_eq_2 numeral_3_eq_3)
  have "weights (h' ! 2) ! 1 = 3"
    using m1 [of 1] rolls(1,2) by (simp add: Chromosome_def)
  moreover have "weights (h' ! 2) ! 0 = 11"
    using c1 [of 0] rolls(3) by (simp add: segment_gene_def example_parents_def)
  moreover have "weights (h' ! 3) ! 2 = 1"
    using m2 [of 2] rolls(4,5) by (simp add: Chromosome_def)
  moreover have "weights (h' ! 3) ! 0 = 21"
    using c2 [of 0] rolls(6) by (simp add: segment_gene_def example_parents_def)
  ultimately show ?thesis
    using hyps rolls res by simp
qed

lemma set_weight_frame:
  "length (set_weight h c i v) = length h" "n \<le> c \<Longrightarrow> take n (set_weight h c i v) = take n h"
  by (simp_all add: set_weight_def)

lemma mutate_gene_frame:
  "mutate_gene h c i g = Inr (h', g') \<Longrightarrow> n \<le> c \<Longrightarrow> length h' = length h \<and> take n h' = take n h"
  by (auto simp: mutate_gene_def set_weight_frame split: if_splits prod.splits)

lemma copy_gene_frame:
  "copy_gene h c p i g = Inr (h', g') \<Longrightarrow> n \<le> c \<Longrightarrow> length h' = length h \<and> take n h' = take n h"
  by (auto simp: copy_gene_def set_weight_frame split: if_splits)

lemma write_child_frame:
  "write_child1 cut1 cut2 p1 p2 c i m h g = Inr (h', g') \<Longrightarrow> n \<le> c
     \<Longrightarrow> length h' = length h \<and> take n h' = take n h"
  "write_child2 cut1 cut2 p1 p2 c i m h g = Inr (h', g') \<Longrightarrow> n \<le> c
     \<Longrightarrow> length h' = length h \<and> take n h' = take n h"
  by (auto simp: write_child1_def write_child2_def split: if_splits
      dest: mutate_gene_frame copy_gene_frame)

lemma crossover_gene_frame:
  assumes "crossover_gene cut1 cut2 p1 p2 c1 c2 i (h, g) = Inr (h', g')" and "n \<le> c1" and "n \<le> c2"
  shows "length h' = length h \<and> take n h' = take n h"
proof -
  from assms(1) obtain m1 m2 gb h1 g1
    where first: "write_child1 cut1 cut2 p1 p2 c1 i m1 h gb = Inr (h1, g1)"
      and second: "write_child2 cut1 cut2 p1 p2 c2 i m2 h1 g1 = Inr (h', g')"
    by (auto simp: crossover_gene_def split: prod.splits sum.splits)
  from write_child_frame(1) [OF first assms(2)] write_child_frame(2) [OF second assms(3)]
  show ?thesis by simp
qed

lemma crossover_loop_frame:
  "crossover_loop cut1 cut2 p1 p2 c1 c2 k (h, g) = Inr (h', g') \<Longrightarrow> n \<le> c1 \<Longrightarrow> n \<le> c2
     \<Longrightarrow> length h' = length h \<and> take n h' = take n h"
proof (induction k arbitrary: h' g')
  case 0
  then show ?case by simp
next
  case (Suc k)
  then obtain h1 g1 where loop: "crossover_loop cut1 cut2 p1 p2 c1 c2 k (h, g) = Inr (h1, g1)"
    and step: "crossover_gene cut1 cut2 p1 p2 c1 c2 k (h1, g1) = Inr (h', g')"
    by (auto split: sum.splits)
  from Suc.IH [OF loop Suc.prems(2,3)] crossover_gene_frame [OF step Suc.prems(2,3)]
  show ?case by simp
qed

text \<open>
  C10. Whenever \<open>crossover\<close> returns, its result are two newly allocated chromosomes (the
  two references that follow the old store) and the old store is unchanged: in particular
  both parents keep their weights and fitness. For parents with 7 genes it does return.
  (When it raises, no store is returned in this model.)
\<close>

theorem crossover_frame:
  assumes "chromosome1 < length h" and "chromosome2 < length h"
  shows "(\<forall>h' children g'. crossover h chromosome1 chromosome2 g = Inr (h', children, g') \<longrightarrow>
            children = [length h, Suc (length h)] \<and> length h' = length h + 2
            \<and> take (length h) h' = h
            \<and> h' ! chromosome1 = h ! chromosome1 \<and> h' ! chromosome2 = h ! chromosome2)
       \<and> (length (weights (h ! chromosome1)) = 7 \<and> length (weights (h ! chromosome2)) = 7 \<longrightarrow>
            (\<exists>h' g'. crossover h chromosome1 chromosome2 g = Inr (h', [length h, Suc (length h)], g')))"
proof (intro conjI allI impI)
  fix h' children g'
  assume res: "crossover h chromosome1 chromosome2 g = Inr (h', children, g')"
  then obtain cut1 cut2 n g2
    where loop: "crossover_loop cut1 cut2 chromosome1 chromosome2 (length h) (Suc (length h)) n
                   (h @ [Chromosome, Chromosome], g2) = Inr (h', g')"
      and ch: "children = [length h, Suc (length h)]"
    by (auto simp: crossover_def Let_def split: prod.splits sum.splits)
  from crossover_loop_frame [OF loop, of "length h"]
  have fr: "length h' = length h + 2" "take (length h) h' = h"
    by simp_all
  show "children = [length h, Suc (length h)]" by (rule ch)
  show "length h' = length h + 2" by (rule fr)
  show "take (length h) h' = h" by (rule fr)
  have "\<And>r. r < length h \<Longrightarrow> h' ! r = h ! r"
    using fr(2) by (metis nth_take)
  then show "h' ! chromosome1 = h ! chromosome1" "h' ! chromosome2 = h ! chromosome2"
    using assms by simp_all
next
  assume "length (weights (h ! chromosome1)) = 7 \<and> length (weights (h ! chromosome2)) = 7"
  then show "\<exists>h' g'. crossover h chromosome1 chromosome2 g = Inr (h', [length h, Suc (length h)], g')"
    using crossover_result [OF assms] by simp
qed

theorem crossover_frame_witness:
  "(0::nat) < length example_parents \<and> (1::nat) < length example_parents
   \<and> length (weights (example_parents ! 0)) = 7 \<and> length (weights (example_parents ! 1)) = 7
   \<and> (\<exists>h' g'. crossover example_parents 0 1 (example_draws, 0) = Inr (h', [2, 3], g')
        \<and> length h' = 4 \<and> take 2 h' = example_parents
        \<and> h' ! 0 = \<lparr>weights = [11, 12, 13, 14, 15, 16, 17], fitness = 4\<rparr>
        \<and> h' ! 1 = \<lparr>weights = [21, 22, 23, 24, 25, 26, 27], fitness = 6\<rparr>)"
proof -
  have hyps: "(0::nat) < length example_parents" "(1::nat) < length example_parents"
    by (simp_all add: example_parents_def)
  have lens: "length (weights (example_parents ! 0)) = 7 \<and> length (weights (example_parents ! 1)) = 7"
    by (simp add: example_parents_def)
  have len: "length example_parents = 2"
    by (simp add: example_parents_def)
  note fr = crossover_frame [OF hyps, of "(example_draws, 0)"]
  from fr lens obtain h' g' where
    res: "crossover example_parents 0 1 (example_draws, 0)
            = Inr (h', [length example_parents, Suc (length example_parents)], g')"
    by blast
  with fr have "length h' = length example_parents + 2 \<and> take (length example_parents) h' = example_parents
      \<and> h' ! 0 = example_parents ! 0 \<and> h' ! 1 = example_parents ! 1"
    by blast
  then show ?thesis
    using hyps lens res by (simp add: len) (simp add: example_parents_def numeral_2_eq_2 numeral_3_eq_3)
qed

section \<open>Properties of selection, average and optimum\<close>

lemma best_scan_mem: "best_scan h best xs \<in> insert best (set xs)"
  by (induction xs arbitrary: best) auto

lemma select_loop_inv:
  "k \<le> length population div 2 \<Longrightarrow>
   \<exists>fittest rest g'. select_loop h k ([], population, g) = Inr (fittest, rest, g')
      \<and> length fittest = k \<and> mset fittest + mset rest = mset population"
proof (induction k)
  case 0
  show ?case by simp
next
  case (Suc k)
  then obtain fittest rest g' where st: "select_loop h k ([], population, g) = Inr (fittest, rest, g')"
    and len: "length fittest = k" and ms: "mset fittest + mset rest = mset population"
    by auto
  from ms have "length fittest + length rest = length population"
    by (metis size_mset size_union)
  with len Suc.prems have ne: "rest \<noteq> []"
    by auto
  obtain u g1 where u: "uniform 0 1 g' = (u, g1)"
    by (cases "uniform 0 1 g'")
  obtain r g2 where r: "randint 0 (int (length rest) - 1) g1 = (r, g2)"
    by (cases "randint 0 (int (length rest) - 1) g1")
  from ne have "0 \<le> int (length rest) - 1"
    by (cases rest) auto
  from randint_range [OF this, of g1] r have "0 \<le> r" "r \<le> int (length rest) - 1"
    by auto
  then have "nat r < length rest"
    by auto
  then have rnd: "rest ! nat r \<in> set rest"
    by simp
  from ne have "rest ! 0 \<in> set rest"
    by (cases rest) auto
  with best_scan_mem [of h "rest ! 0" rest] have best: "best_scan h (rest ! 0) rest \<in> set rest"
    by auto
  have move: "mset (fittest @ [x]) + mset (remove1 x rest) = mset population"
    if "x \<in> set rest" for x
  proof -
    from that have "add_mset x (mset rest - {#x#}) = mset rest"
      by simp
    then have "mset (fittest @ [x]) + mset (remove1 x rest) = mset fittest + mset rest"
      by simp
    with ms show ?thesis
      by simp
  qed
  show ?case
    using st len u r ne move [OF rnd] move [OF best]
    by (simp add: Let_def)
qed

text \<open>
  C5. For every input population of size \<open>n\<close>, \<open>select_fittest\<close> returns without error
  exactly \<open>n div 2\<close> individuals, each of them from the input population. No individual is
  selected twice: every chosen individual is moved out of the remaining pool, so the
  survivors together with what is left of the pool are exactly the input population, counted
  with multiplicity; for a population of distinct individuals the survivors are distinct and
  none of them is left in the pool.
\<close>

theorem select_fittest_half:
  "\<exists>fittest rest g'. select_fittest h population g = Inr (fittest, rest, g')
     \<and> length fittest = length population div 2
     \<and> set fittest \<subseteq> set population
     \<and> mset fittest + mset rest = mset population
     \<and> (distinct population \<longrightarrow> distinct fittest \<and> set fittest \<inter> set rest = {})"
proof -
  obtain fittest rest g' where st: "select_fittest h population g = Inr (fittest, rest, g')"
    and len: "length fittest = length population div 2"
    and ms: "mset fittest + mset rest = mset population"
    using select_loop_inv [of "length population div 2" population h g]
    by (auto simp: select_fittest_def)
  from ms have app: "mset (fittest @ rest) = mset population"
    by simp
  then have "set (fittest @ rest) = set population"
    by (rule mset_eq_setD)
  then have sub: "set fittest \<subseteq> set population"
    by auto
  have "distinct population \<Longrightarrow> distinct (fittest @ rest)"
    using app by (metis mset_eq_imp_distinct_iff)
  then have "distinct population \<longrightarrow> distinct fittest \<and> set fittest \<inter> set rest = {}"
    by auto
  with st len ms sub show ?thesis
    by blast
qed

lemma select_loop_numeral:
  "select_loop h (numeral n) st = select_loop h (Suc (pred_numeral n)) st"
  by (simp add: numeral_eq_Suc)

lemma example_select_draws_simps:
  "example_select_draws 0 = 0" "example_select_draws 1 = 3" "example_select_draws (Suc 0) = 3"
  "example_select_draws 2 = 9007199254740991"
  "example_select_draws (Suc (Suc 0)) = 9007199254740991"
  by (simp_all add: example_select_draws_def numeral_2_eq_2 [symmetric])

lemma select_fittest_example:
  "select_fittest example_pool [0, 1, 2, 3] (example_select_draws, 0)
     = Inr ([3, 1], [0, 2], (example_select_draws, 3))"
  by (simp add: select_fittest_def select_loop_numeral uniform_pos randint_pos
      example_select_draws_simps example_pool_def Let_def)

theorem select_fittest_half_witness:
  "distinct [0, 1, 2, 3 :: nat]
   \<and> select_fittest example_pool [0, 1, 2, 3] (example_select_draws, 0)
       = Inr ([3, 1], [0, 2], (example_select_draws, 3))
   \<and> length [3, 1 :: nat] = length [0, 1, 2, 3 :: nat] div 2
   \<and> set [3, 1 :: nat] \<subseteq> set [0, 1, 2, 3]
   \<and> mset [3, 1 :: nat] + mset [0, 2] = mset [0, 1, 2, 3]
   \<and> distinct [3, 1 :: nat] \<and> set [3, 1 :: nat] \<inter> set [0, 2] = {}"
  using select_fittest_half [of example_pool "[0, 1, 2, 3]" "(example_select_draws, 0)"]
    select_fittest_example
  by simp

lemma shuffle_short: "length x \<le> 1 \<Longrightarrow> shuffle x g = (x, g)"
  by (cases x) (simp_all add: shuffle_def)

text \<open>
  C6, as amended. For a population of size 0 or 1 neither operator fails. \<open>add_children\<close>
  leaves the population (and the store and the random source) unchanged. \<open>select_fittest\<close>
  runs no iteration: it returns the empty list of survivors and leaves its argument list
  unchanged. For size 0 the result is the unchanged (empty) population; for size 1 the single
  individual is not among the survivors.
\<close>

theorem degenerate_population_unchanged:
  assumes "length population \<le> 1"
  shows "add_children h population g = Inr (h, population, g)
       \<and> select_fittest h population g = Inr ([], population, g)"
  using assms by (simp add: add_children_def shuffle_short select_fittest_def)

theorem degenerate_population_unchanged_witness:
  "length [0 :: nat] \<le> 1
   \<and> add_children [Chromosome] [0] (example_draws, 0) = Inr ([Chromosome], [0], (example_draws, 0))
   \<and> select_fittest [Chromosome] [0] (example_draws, 0) = Inr ([], [0], (example_draws, 0))"
  using degenerate_population_unchanged [of "[0]" "[Chromosome]" "(example_draws, 0)"]
  by simp

text \<open>
  C6 as stated fails for \<open>select_fittest\<close> on a population of one individual: the list it
  returns is empty, not the population.
\<close>

theorem select_fittest_single_counterexample:
  "select_fittest [Chromosome] [0] (example_draws, 0) = Inr ([], [0], (example_draws, 0))
   \<and> [] \<noteq> [0 :: nat]"
  by (simp add: select_fittest_def)

lemma fit_sum_acc: "fit_sum h acc population = acc + sum_list (map (\<lambda>c. fitness (h ! c)) population)"
  by (induction population arbitrary: acc) simp_all

text \<open>
  C7, as amended. On an empty population \<open>avg_fitness\<close> raises the \<open>ZeroDivisionError\<close> of
  the division (there is no guard before it); for every non-empty population it returns the
  arithmetic mean of the fitness values of the individuals.
\<close>

theorem avg_fitness_mean:
  "avg_fitness h [] = Inl ZeroDivisionError
   \<and> (population \<noteq> [] \<longrightarrow>
        avg_fitness h population
          = Inr (real_of_int (sum_list (map (\<lambda>c. fitness (h ! c)) population))
                 / real (length population)))"
  by (simp add: avg_fitness_def fit_sum_acc)

theorem avg_fitness_mean_witness:
  "[0, 1, 2, 3 :: nat] \<noteq> []
   \<and> avg_fitness example_pool [0, 1, 2, 3] = Inr 4"
  using avg_fitness_mean [of example_pool "[0, 1, 2, 3]"]
  by (simp add: example_pool_def)

text \<open>
  C7 as stated fails on the empty population: what is reported is the numeric fault of the
  division by zero.
\<close>

theorem avg_fitness_empty_counterexample:
  "avg_fitness example_pool [] = Inl ZeroDivisionError"
  by (simp add: avg_fitness_def)

lemma hd_insort_key:
  "hd (insort_key f x ys) = (if ys = [] \<or> f x \<le> f (hd ys) then x else hd ys)"
  by (cases ys) simp_all

lemma sort_key_nonempty: "xs \<noteq> [] \<Longrightarrow> sort_key f xs \<noteq> []"
  by (metis length_0_conv length_sort)

lemma hd_sort_key_first_min:
  fixes f :: "'a \<Rightarrow> int"
  shows "xs \<noteq> [] \<Longrightarrow>
    \<exists>i<length xs. xs ! i = hd (sort_key f xs)
      \<and> (\<forall>j<i. f (hd (sort_key f xs)) < f (xs ! j))
      \<and> (\<forall>j<length xs. f (hd (sort_key f xs)) \<le> f (xs ! j))"
proof (induction xs)
  case Nil
  then show ?case by simp
next
  case (Cons x xs)
  show ?case
  proof (cases "xs = []")
    case True
    then show ?thesis by simp
  next
    case False
    with Cons.IH obtain i where i: "i < length xs" "xs ! i = hd (sort_key f xs)"
      and before: "\<forall>j<i. f (hd (sort_key f xs)) < f (xs ! j)"
      and all: "\<forall>j<length xs. f (hd (sort_key f xs)) \<le> f (xs ! j)"
      by blast
    have ne: "sort_key f xs \<noteq> []"
      using False by (rule sort_key_nonempty)
    show ?thesis
    proof (cases "f x \<le> f (hd (sort_key f xs))")
      case True
      then have hd: "hd (sort_key f (x # xs)) = x"
        by (simp add: hd_insort_key)
      have "\<forall>j<length (x # xs). f x \<le> f ((x # xs) ! j)"
      proof (intro allI impI)
        fix j assume "j < length (x # xs)"
        then show "f x \<le> f ((x # xs) ! j)"
          using True all by (cases j) (auto intro: order_trans)
      qed
      then show ?thesis
        unfolding hd by (intro exI [of _ 0]) simp
    next
      case False
      then have hd: "hd (sort_key f (x # xs)) = hd (sort_key f xs)"
        using ne by (simp add: hd_insort_key)
      have "\<forall>j<Suc i. f (hd (sort_key f xs)) < f ((x # xs) ! j)"
      proof (intro allI impI)
        fix j assume "j < Suc i"
        then show "f (hd (sort_key f xs)) < f ((x # xs) ! j)"
          using False before by (cases j) auto
      qed
      moreover have "\<forall>j<length (x # xs). f (hd (sort_key f xs)) \<le> f ((x # xs) ! j)"
      proof (intro allI impI)
        fix j assume "j < length (x # xs)"
        then show "f (hd (sort_key f xs)) \<le> f ((x # xs) ! j)"
          using False all by (cases j) auto
      qed
      ultimately show ?thesis
        unfolding hd using i by (intro exI [of _ "Suc i"]) simp
    qed
  qed
qed

text \<open>
  C9. For every non-empty population \<open>get_optimal\<close> returns an individual of the population
  whose fitness is at least the fitness of every individual of the population, and among
  those of maximal fitness the earliest of the original order: every individual before it
  has a strictly smaller fitness. The list is left sorted, a permutation of the input. On
  the population with the fitness values 3, 7 and 5 it returns the individual of fitness 7.
\<close>

theorem get_optimal_first_max:
  "(population \<noteq> [] \<longrightarrow>
      (\<exists>best population'. get_optimal h population = Inr (best, population')
        \<and> mset population' = mset population
        \<and> best \<in> set population
        \<and> (\<forall>x \<in> set population. fitness (h ! x) \<le> fitness (h ! best))
        \<and> (\<exists>i<length population. population ! i = best
              \<and> (\<forall>j<i. fitness (h ! (population ! j)) < fitness (h ! best)))))
   \<and> get_optimal example_trio [0, 1, 2] = Inr (1, [1, 2, 0])
   \<and> fitness (example_trio ! 1) = 7"
proof (intro conjI impI)
  assume assms: "population \<noteq> []"
  let ?s = "sort_key (\<lambda>x. - fitness (h ! x)) population"
  have ne: "?s \<noteq> []"
    using assms by (rule sort_key_nonempty)
  then have res: "get_optimal h population = Inr (hd ?s, ?s)"
    by (simp add: get_optimal_def Let_def hd_conv_nth)
  from hd_sort_key_first_min [OF assms, of "\<lambda>x. - fitness (h ! x)"]
  obtain i where i: "i < length population" "population ! i = hd ?s"
    and before: "\<forall>j<i. fitness (h ! (population ! j)) < fitness (h ! hd ?s)"
    and all: "\<forall>j<length population. fitness (h ! (population ! j)) \<le> fitness (h ! hd ?s)"
    by auto
  from i have mem: "hd ?s \<in> set population"
    by (metis nth_mem)
  from all have max: "\<forall>x \<in> set population. fitness (h ! x) \<le> fitness (h ! hd ?s)"
    by (auto simp: in_set_conv_nth)
  show "\<exists>best population'. get_optimal h population = Inr (best, population')
        \<and> mset population' = mset population
        \<and> best \<in> set population
        \<and> (\<forall>x \<in> set population. fitness (h ! x) \<le> fitness (h ! best))
        \<and> (\<exists>i<length population. population ! i = best
              \<and> (\<forall>j<i. fitness (h ! (population ! j)) < fitness (h ! best)))"
    using res mem max i before by auto
next
  show "get_optimal example_trio [0, 1, 2] = Inr (1, [1, 2, 0])"
    by (simp add: get_optimal_def example_trio_def)
  show "fitness (example_trio ! 1) = 7"
    by (simp add: example_trio_def)
qed

theorem get_optimal_first_max_witness:
  "[0, 1, 2 :: nat] \<noteq> []
   \<and> get_optimal example_tied [0, 1, 2] = Inr (1, [1, 2, 0])
   \<and> fitness (example_tied ! 1) = 7 \<and> fitness (example_tied ! 2) = 7"
  using get_optimal_first_max [of "[0, 1, 2]" example_tied]
  by (simp add: get_optimal_def example_tied_def)

section \<open>Properties of the variation step\<close>

lemma shuffle_loop_mset:
  "k < length x \<Longrightarrow> mset (fst (shuffle_loop k x g)) = mset x"
proof (induction k arbitrary: x g)
  case 0
  show ?case by simp
next
  case (Suc i)
  obtain r g' where r: "random_raw g = (r, g')"
    by (cases "random_raw g")
  let ?j = "r mod (Suc i + 1)"
  have j: "?j < length x"
    using Suc.prems by (metis Suc_eq_plus1 less_Suc_eq_le mod_less_divisor order_le_less_trans zero_less_Suc)
  have swap: "mset (x[Suc i := x ! ?j, ?j := x ! Suc i]) = mset x"
    using Suc.prems j by (simp add: mset_swap)
  have "i < length (x[Suc i := x ! ?j, ?j := x ! Suc i])"
    using Suc.prems by simp
  from Suc.IH [OF this, of g'] swap show ?case
    by (simp add: r Let_def)
qed

lemma shuffle_mset: "mset (fst (shuffle x g)) = mset x"
proof (cases x)
  case Nil
  then show ?thesis by (simp add: shuffle_def)
next
  case (Cons a as)
  then show ?thesis by (simp add: shuffle_def shuffle_loop_mset)
qed

lemma shuffle_length: "length (fst (shuffle x g)) = length x"
  by (metis shuffle_mset size_mset)

lemma shuffle_set: "set (fst (shuffle x g)) = set x"
  by (metis shuffle_mset set_mset_mset)

lemma offspring_length:
  "length (weights (offspring1 w1 w2 g)) = 7" "length (weights (offspring2 w1 w2 g)) = 7"
  by (simp_all add: offspring1_def offspring2_def)

lemma upt_two_more: "[a..<a + 2 * k] @ [a + 2 * k, Suc (a + 2 * k)] = [a..<a + 2 * Suc k]"
  by simp

lemma children_loop_inv:
  assumes "\<forall>i<k. half1 ! i < length h \<and> length (weights (h ! (half1 ! i))) = 7
                \<and> half2 ! i < length h \<and> length (weights (h ! (half2 ! i))) = 7"
  shows "\<exists>h' g'. children_loop half1 half2 k (h, population, g)
             = Inr (h', population @ [length h..<length h + 2 * k], g')
          \<and> length h' = length h + 2 * k \<and> take (length h) h' = h
          \<and> (\<forall>r<length h'. length h \<le> r \<longrightarrow> length (weights (h' ! r)) = 7)"
  using assms
proof (induction k)
  case 0
  show ?case by simp
next
  case (Suc k)
  then obtain hk gk where st: "children_loop half1 half2 k (h, population, g)
             = Inr (hk, population @ [length h..<length h + 2 * k], gk)"
    and len: "length hk = length h + 2 * k" and old: "take (length h) hk = h"
    and new: "\<forall>r<length hk. length h \<le> r \<longrightarrow> length (weights (hk ! r)) = 7"
    by auto
  have same: "\<And>r. r < length h \<Longrightarrow> hk ! r = h ! r"
    using old by (metis nth_take)
  from Suc.prems have p: "half1 ! k < length h" "length (weights (h ! (half1 ! k))) = 7"
    "half2 ! k < length h" "length (weights (h ! (half2 ! k))) = 7"
    by auto
  then have pk: "half1 ! k < length hk" "half2 ! k < length hk"
    "length (weights (hk ! (half1 ! k))) = 7" "length (weights (hk ! (half2 ! k))) = 7"
    using len same by auto
  note res = crossover_result [OF pk, of gk]
  let ?h' = "hk @ [offspring1 (weights (hk ! (half1 ! k))) (weights (hk ! (half2 ! k))) gk,
                   offspring2 (weights (hk ! (half1 ! k))) (weights (hk ! (half2 ! k))) gk]"
  have "take (length h) ?h' = h"
    using old len by simp
  moreover have "\<forall>r<length ?h'. length h \<le> r \<longrightarrow> length (weights (?h' ! r)) = 7"
    using new by (auto simp: nth_append offspring_length less_Suc_eq)
  moreover have "length ?h' = length h + 2 * Suc k"
    using len by simp
  moreover have "children_loop half1 half2 (Suc k) (h, population, g)
      = Inr (?h', population @ [length h..<length h + 2 * Suc k], gene_rng (loop_rng gk) 7)"
    using upt_two_more [of "length h" k] by (simp add: st res len del: upt_Suc)
  ultimately show ?case
    by blast
qed

lemma unpaired_positions:
  fixes n :: nat
  shows "{i. i < n \<and> (\<forall>k < n div 2. i \<noteq> k \<and> i \<noteq> n div 2 + k)}
     = (if odd n then {n - 1} else {})"
proof -
  have "(\<forall>k < n div 2. i \<noteq> k \<and> i \<noteq> n div 2 + k) \<longleftrightarrow> 2 * (n div 2) \<le> i" for i
  proof
    assume a: "\<forall>k < n div 2. i \<noteq> k \<and> i \<noteq> n div 2 + k"
    show "2 * (n div 2) \<le> i"
    proof (rule ccontr)
      assume "\<not> 2 * (n div 2) \<le> i"
      then have "i < n div 2 \<or> (n div 2 \<le> i \<and> i - n div 2 < n div 2)"
        by arith
      then show False
      proof
        assume "i < n div 2"
        with a show False by blast
      next
        assume b: "n div 2 \<le> i \<and> i - n div 2 < n div 2"
        with a have "i \<noteq> n div 2 + (i - n div 2)" by blast
        with b show False by simp
      qed
    qed
  next
    assume "2 * (n div 2) \<le> i"
    then show "\<forall>k < n div 2. i \<noteq> k \<and> i \<noteq> n div 2 + k"
      by auto
  qed
  then have "{i. i < n \<and> (\<forall>k < n div 2. i \<noteq> k \<and> i \<noteq> n div 2 + k)}
      = {i. i < n \<and> 2 * (n div 2) \<le> i}"
    by simp
  also have "\<dots> = (if odd n then {n - 1} else {})"
    by (auto elim!: oddE)
  finally show ?thesis .
qed

lemma shuffled_valid:
  assumes "valid_population h population" and "shuffle population g = (s, g1)"
  shows "mset s = mset population" and "length s = length population"
    and "\<And>i. i < length s \<Longrightarrow> s ! i < length h \<and> length (weights (h ! (s ! i))) = 7"
proof -
  show ms: "mset s = mset population"
    using shuffle_mset [of population g] by (simp add: assms(2))
  then show "length s = length population"
    by (metis size_mset)
  from ms have "set s = set population"
    by (metis set_mset_mset)
  then show "\<And>i. i < length s \<Longrightarrow> s ! i < length h \<and> length (weights (h ! (s ! i))) = 7"
    using assms(1) by (metis nth_mem valid_population_def)
qed

lemma halves_valid:
  assumes "length s = n"
    and "\<And>i. i < length s \<Longrightarrow> s ! i < length h \<and> length (weights (h ! (s ! i))) = 7"
    and "k \<le> n div 2"
  shows "\<forall>i<k. take (n div 2) s ! i < length h \<and> length (weights (h ! (take (n div 2) s ! i))) = 7
              \<and> drop (n div 2) s ! i < length h \<and> length (weights (h ! (drop (n div 2) s ! i))) = 7"
  using assms by auto

lemma add_children_result:
  assumes "valid_population h population" and "shuffle population g = (s, g1)"
  shows "\<exists>h' g'. add_children h population g
             = Inr (h', s @ [length h..<length h + 2 * (length population div 2)], g')
          \<and> length h' = length h + 2 * (length population div 2) \<and> take (length h) h' = h
          \<and> valid_population h' (s @ [length h..<length h + 2 * (length population div 2)])"
proof -
  let ?mid = "length population div 2"
  note sv = shuffled_valid [OF assms]
  from children_loop_inv [OF halves_valid [OF sv(2,3) order_refl], of s g1]
  obtain h' g' where fin: "children_loop (take ?mid s) (drop ?mid s) ?mid (h, s, g1)
             = Inr (h', s @ [length h..<length h + 2 * ?mid], g')"
    and lenh: "length h' = length h + 2 * ?mid" and old: "take (length h) h' = h"
    and new: "\<forall>r<length h'. length h \<le> r \<longrightarrow> length (weights (h' ! r)) = 7"
    by blast
  have res: "add_children h population g = Inr (h', s @ [length h..<length h + 2 * ?mid], g')"
    using fin by (simp add: add_children_def assms(2) sv(2) Let_def)
  have same: "\<And>r. r < length h \<Longrightarrow> h' ! r = h ! r"
    using old by (metis nth_take)
  have sets: "set s = set population"
    using sv(1) by (metis set_mset_mset)
  have "valid_population h' (s @ [length h..<length h + 2 * ?mid])"
    unfolding valid_population_def
  proof
    fix c assume "c \<in> set (s @ [length h..<length h + 2 * ?mid])"
    then consider "c \<in> set population" | "length h \<le> c" "c < length h + 2 * ?mid"
      using sets by auto
    then show "c < length h' \<and> length (weights (h' ! c)) = 7"
    proof cases
      case 1
      with assms(1) have "c < length h" "length (weights (h ! c)) = 7"
        by (auto simp: valid_population_def)
      then show ?thesis using same lenh by simp
    next
      case 2
      then show ?thesis using new lenh by simp
    qed
  qed
  with res lenh old show ?thesis
    by blast
qed

lemma new_children_Suc:
  "new_children h half1 half2 g (Suc n)
     = new_children h half1 half2 g n @ pair_children h (half1 ! n) (half2 ! n) (children_rng g n)"
  by (simp add: new_children_def)

lemma new_children_0: "new_children h half1 half2 g 0 = []"
  by (simp add: new_children_def)

lemma new_children_length: "length (new_children h half1 half2 g n) = 2 * n"
  by (induction n) (simp_all add: new_children_Suc, simp_all add: new_children_def pair_children_def)

lemma new_children_take:
  "i \<le> n \<Longrightarrow> take (2 * i) (new_children h half1 half2 g n) = new_children h half1 half2 g i"
proof (induction n)
  case 0
  then show ?case by (simp add: new_children_0)
next
  case (Suc n)
  show ?case
  proof (cases "i = Suc n")
    case True
    then show ?thesis
      using new_children_length [of h half1 half2 g "Suc n"] by simp
  next
    case False
    with Suc.prems have "i \<le> n" by simp
    with Suc.IH show ?thesis
      by (simp add: new_children_Suc new_children_length)
  qed
qed

lemma new_children_nth:
  assumes "i < n"
  shows "new_children h half1 half2 g n ! (2 * i)
           = offspring1 (weights (h ! (half1 ! i))) (weights (h ! (half2 ! i))) (children_rng g i)"
    and "new_children h half1 half2 g n ! (2 * i + 1)
           = offspring2 (weights (h ! (half1 ! i))) (weights (h ! (half2 ! i))) (children_rng g i)"
proof -
  from assms have "Suc i \<le> n" by simp
  from new_children_take [OF this, of h half1 half2 g]
  have tk: "take (2 * i + 2) (new_children h half1 half2 g n)
      = new_children h half1 half2 g i @ pair_children h (half1 ! i) (half2 ! i) (children_rng g i)"
    by (simp add: new_children_Suc)
  have a: "new_children h half1 half2 g n ! (2 * i)
      = take (2 * i + 2) (new_children h half1 half2 g n) ! (2 * i)"
    by simp
  show "new_children h half1 half2 g n ! (2 * i)
           = offspring1 (weights (h ! (half1 ! i))) (weights (h ! (half2 ! i))) (children_rng g i)"
    unfolding a tk by (simp add: nth_append new_children_length pair_children_def)
  have b: "new_children h half1 half2 g n ! (2 * i + 1)
      = take (2 * i + 2) (new_children h half1 half2 g n) ! (2 * i + 1)"
    by simp
  show "new_children h half1 half2 g n ! (2 * i + 1)
           = offspring2 (weights (h ! (half1 ! i))) (weights (h ! (half2 ! i))) (children_rng g i)"
    unfolding b tk by (simp add: nth_append new_children_length pair_children_def)
qed

lemma crossover_on_extended:
  assumes "c1 < length h" and "c2 < length h"
    and "length (weights (h ! c1)) = 7" and "length (weights (h ! c2)) = 7"
  shows "crossover (h @ new) c1 c2 g
           = Inr ((h @ new) @ pair_children h c1 c2 g,
                  [length h + length new, length h + length new + 1], gene_rng (loop_rng g) 7)"
proof -
  have p: "c1 < length (h @ new)" "c2 < length (h @ new)"
    "length (weights ((h @ new) ! c1)) = 7" "length (weights ((h @ new) ! c2)) = 7"
    using assms by (simp_all add: nth_append)
  from crossover_result [OF p, of g] assms(1,2) show ?thesis
    by (simp add: pair_children_def nth_append)
qed

lemma children_loop_closed:
  assumes "\<forall>i<k. half1 ! i < length h \<and> length (weights (h ! (half1 ! i))) = 7
                \<and> half2 ! i < length h \<and> length (weights (h ! (half2 ! i))) = 7"
  shows "children_loop half1 half2 k (h, population, g)
           = Inr (h @ new_children h half1 half2 g k,
                  population @ [length h..<length h + 2 * k], children_rng g k)"
  using assms
proof (induction k)
  case 0
  show ?case by (simp add: new_children_def)
next
  case (Suc k)
  then have st: "children_loop half1 half2 k (h, population, g)
           = Inr (h @ new_children h half1 half2 g k,
                  population @ [length h..<length h + 2 * k], children_rng g k)"
    by simp
  from Suc.prems have p: "half1 ! k < length h" "half2 ! k < length h"
    "length (weights (h ! (half1 ! k))) = 7" "length (weights (h ! (half2 ! k))) = 7"
    by auto
  show ?case
    using upt_two_more [of "length h" k]
    by (simp add: st crossover_on_extended [OF p] new_children_Suc new_children_length del: upt_Suc)
qed

lemma add_children_closed:
  assumes "valid_population h population" and "shuffle population g = (s, g1)"
  shows "add_children h population g
           = Inr (h @ new_children h (take (length population div 2) s) (drop (length population div 2) s)
                        g1 (length population div 2),
                  s @ [length h..<length h + 2 * (length population div 2)],
                  children_rng g1 (length population div 2))"
proof -
  note sv = shuffled_valid [OF assms]
  from children_loop_closed [OF halves_valid [OF sv(2,3) order_refl], of s g1]
  show ?thesis
    by (simp add: add_children_def assms(2) sv(2) Let_def)
qed

lemma add_children_pair_closed:
  assumes "valid_population h population" and "shuffle population g = (s, g1)"
    and "i < length population div 2"
    and "h' = h @ new_children h (take (length population div 2) s) (drop (length population div 2) s)
                    g1 (length population div 2)"
  shows "h' ! (length h + 2 * i)
           = offspring1 (weights (h ! (s ! i))) (weights (h ! (s ! (length population div 2 + i))))
               (children_rng g1 i)"
    and "h' ! (length h + 2 * i + 1)
           = offspring2 (weights (h ! (s ! i))) (weights (h ! (s ! (length population div 2 + i))))
               (children_rng g1 i)"
    and "children_loop (take (length population div 2) s) (drop (length population div 2) s) i (h, s, g1)
           = Inr (take (length h + 2 * i) h', s @ [length h..<length h + 2 * i], children_rng g1 i)"
    and "crossover (take (length h + 2 * i) h') (s ! i) (s ! (length population div 2 + i))
             (children_rng g1 i)
           = Inr (take (length h + 2 * Suc i) h', [length h + 2 * i, length h + 2 * i + 1],
                  children_rng g1 (Suc i))"
    and "children_loop (take (length population div 2) s) (drop (length population div 2) s) (Suc i) (h, s, g1)
           = Inr (take (length h + 2 * Suc i) h', s @ [length h..<length h + 2 * Suc i],
                  children_rng g1 (Suc i))"
proof -
  let ?mid = "length population div 2"
  let ?half1 = "take ?mid s" and ?half2 = "drop ?mid s"
  note sv = shuffled_valid [OF assms(1,2)]
  have idx: "?half1 ! i = s ! i" "?half2 ! i = s ! (?mid + i)"
    using assms(3) sv(2) by simp_all
  have le: "i \<le> ?mid" "Suc i \<le> ?mid"
    using assms(3) by simp_all
  have pre: "take (length h + 2 * k) h' = h @ new_children h ?half1 ?half2 g1 k" if "k \<le> ?mid" for k
    using new_children_take [OF that, of h ?half1 ?half2 g1] by (simp add: assms(4))
  have nth: "h' ! (length h + j) = new_children h ?half1 ?half2 g1 ?mid ! j" for j
    by (simp add: assms(4) nth_append)
  show "h' ! (length h + 2 * i)
           = offspring1 (weights (h ! (s ! i))) (weights (h ! (s ! (?mid + i)))) (children_rng g1 i)"
    using new_children_nth(1) [OF assms(3), of h ?half1 ?half2 g1] by (simp add: nth idx)
  show "h' ! (length h + 2 * i + 1)
           = offspring2 (weights (h ! (s ! i))) (weights (h ! (s ! (?mid + i)))) (children_rng g1 i)"
    using new_children_nth(2) [OF assms(3), of h ?half1 ?half2 g1] nth [of "2 * i + 1"]
    by (simp add: idx add.assoc)
  show "children_loop ?half1 ?half2 i (h, s, g1)
           = Inr (take (length h + 2 * i) h', s @ [length h..<length h + 2 * i], children_rng g1 i)"
    unfolding pre [OF le(1)] by (rule children_loop_closed [OF halves_valid [OF sv(2,3) le(1)]])
  show loop_Suc: "children_loop ?half1 ?half2 (Suc i) (h, s, g1)
           = Inr (take (length h + 2 * Suc i) h', s @ [length h..<length h + 2 * Suc i],
                  children_rng g1 (Suc i))"
    unfolding pre [OF le(2)] by (rule children_loop_closed [OF halves_valid [OF sv(2,3) le(2)]])
  have "i < length s" "?mid + i < length s"
    using assms(3) sv(2) by auto
  then have v: "s ! i < length h" "s ! (?mid + i) < length h"
    "length (weights (h ! (s ! i))) = 7" "length (weights (h ! (s ! (?mid + i)))) = 7"
    using sv(3) by blast+
  show "crossover (take (length h + 2 * i) h') (s ! i) (s ! (?mid + i)) (children_rng g1 i)
           = Inr (take (length h + 2 * Suc i) h', [length h + 2 * i, length h + 2 * i + 1],
                  children_rng g1 (Suc i))"
    unfolding pre [OF le(1)] pre [OF le(2)]
    using crossover_on_extended [OF v, of "new_children h ?half1 ?half2 g1 i" "children_rng g1 i"]
    by (simp add: new_children_Suc new_children_length idx)
qed

text \<open>
  C4. For every population of size \<open>N\<close> (of valid individuals), \<open>add_children\<close> returns
  without error a population of size \<open>N + 2 * (N div 2)\<close>: the shuffled population \<open>s\<close>, a
  permutation of the input, followed by the references of the new children, and a store
  \<open>h'\<close> that extends the old one by these children. For each of the \<open>N div 2\<close> values of
  \<open>i\<close>, the entries \<open>N + 2 * i\<close> and \<open>N + 2 * i + 1\<close> of the result are the two objects that
  \<open>h'\<close> holds after the old store and the children of the earlier pairs; these objects are
  the children of element \<open>i\<close> of the first half and element \<open>i\<close> of the second half of \<open>s\<close>
  (\<open>offspring1\<close> and \<open>offspring2\<close> of their weights, with the random source that the loop has
  reached); and they are what \<open>crossover\<close> returns for these two parents in iteration \<open>i\<close>,
  which turns the store of the first \<open>i\<close> pairs into the store of the first \<open>i + 1\<close>. The
  positions of \<open>s\<close> that take part in no pair are none when \<open>N\<close> is even and exactly the last
  one when \<open>N\<close> is odd.
\<close>

theorem add_children_size:
  assumes "valid_population h population"
  shows "\<exists>s g1 h' population' g'.
      shuffle population g = (s, g1) \<and> mset s = mset population
    \<and> add_children h population g = Inr (h', population', g')
    \<and> length population' = length population + 2 * (length population div 2)
    \<and> population' = s @ [length h..<length h + 2 * (length population div 2)]
    \<and> length h' = length h + 2 * (length population div 2) \<and> take (length h) h' = h
    \<and> valid_population h' population'
    \<and> g' = children_rng g1 (length population div 2)
    \<and> (\<forall>i < length population div 2.
          population' ! (length population + 2 * i) = length h + 2 * i
        \<and> population' ! (length population + 2 * i + 1) = length h + 2 * i + 1
        \<and> h' ! (length h + 2 * i)
            = offspring1 (weights (h ! (s ! i))) (weights (h ! (s ! (length population div 2 + i))))
                (children_rng g1 i)
        \<and> h' ! (length h + 2 * i + 1)
            = offspring2 (weights (h ! (s ! i))) (weights (h ! (s ! (length population div 2 + i))))
                (children_rng g1 i)
        \<and> children_loop (take (length population div 2) s) (drop (length population div 2) s) i (h, s, g1)
            = Inr (take (length h + 2 * i) h', s @ [length h..<length h + 2 * i], children_rng g1 i)
        \<and> crossover (take (length h + 2 * i) h') (s ! i) (s ! (length population div 2 + i))
              (children_rng g1 i)
            = Inr (take (length h + 2 * Suc i) h', [length h + 2 * i, length h + 2 * i + 1],
                   children_rng g1 (Suc i))
        \<and> children_loop (take (length population div 2) s) (drop (length population div 2) s) (Suc i) (h, s, g1)
            = Inr (take (length h + 2 * Suc i) h', s @ [length h..<length h + 2 * Suc i],
                   children_rng g1 (Suc i)))
    \<and> {i. i < length population
           \<and> (\<forall>k < length population div 2. i \<noteq> k \<and> i \<noteq> length population div 2 + k)}
        = (if odd (length population) then {length population - 1} else {})"
proof -
  let ?mid = "length population div 2"
  obtain s g1 where sh: "shuffle population g = (s, g1)"
    by (cases "shuffle population g")
  note sv = shuffled_valid [OF assms sh]
  define h' where "h' = h @ new_children h (take ?mid s) (drop ?mid s) g1 ?mid"
  define population' where "population' = s @ [length h..<length h + 2 * ?mid]"
  have res: "add_children h population g = Inr (h', population', children_rng g1 ?mid)"
    unfolding h'_def population'_def by (rule add_children_closed [OF assms sh])
  from add_children_result [OF assms sh] res
  have lenh: "length h' = length h + 2 * ?mid" and old: "take (length h) h' = h"
    and valid': "valid_population h' population'"
    by (auto simp: population'_def)
  have lenp: "length population' = length population + 2 * ?mid"
    by (simp add: population'_def sv(2))
  have refs: "population' ! (length population + 2 * i) = length h + 2 * i"
    "population' ! (length population + 2 * i + 1) = length h + 2 * i + 1"
    if "i < ?mid" for i
    using that by (simp_all add: population'_def nth_append sv(2))
  note pc = add_children_pair_closed [OF assms sh _ h'_def]
  have per_pair: "\<forall>i < ?mid.
          population' ! (length population + 2 * i) = length h + 2 * i
        \<and> population' ! (length population + 2 * i + 1) = length h + 2 * i + 1
        \<and> h' ! (length h + 2 * i)
            = offspring1 (weights (h ! (s ! i))) (weights (h ! (s ! (?mid + i)))) (children_rng g1 i)
        \<and> h' ! (length h + 2 * i + 1)
            = offspring2 (weights (h ! (s ! i))) (weights (h ! (s ! (?mid + i)))) (children_rng g1 i)
        \<and> children_loop (take ?mid s) (drop ?mid s) i (h, s, g1)
            = Inr (take (length h + 2 * i) h', s @ [length h..<length h + 2 * i], children_rng g1 i)
        \<and> crossover (take (length h + 2 * i) h') (s ! i) (s ! (?mid + i)) (children_rng g1 i)
            = Inr (take (length h + 2 * Suc i) h', [length h + 2 * i, length h + 2 * i + 1],
                   children_rng g1 (Suc i))
        \<and> children_loop (take ?mid s) (drop ?mid s) (Suc i) (h, s, g1)
            = Inr (take (length h + 2 * Suc i) h', s @ [length h..<length h + 2 * Suc i],
                   children_rng g1 (Suc i))"
    using refs pc by blast
  show ?thesis
  proof (intro exI conjI)
    show "shuffle population g = (s, g1)" by (rule sh)
    show "mset s = mset population" by (rule sv(1))
    show "add_children h population g = Inr (h', population', children_rng g1 ?mid)" by (rule res)
    show "length population' = length population + 2 * ?mid" by (rule lenp)
    show "population' = s @ [length h..<length h + 2 * ?mid]" by (rule population'_def)
    show "length h' = length h + 2 * ?mid" by (rule lenh)
    show "take (length h) h' = h" by (rule old)
    show "valid_population h' population'" by (rule valid')
    show "children_rng g1 ?mid = children_rng g1 ?mid" by (rule refl)
    show "\<forall>i < ?mid.
          population' ! (length population + 2 * i) = length h + 2 * i
        \<and> population' ! (length population + 2 * i + 1) = length h + 2 * i + 1
        \<and> h' ! (length h + 2 * i)
            = offspring1 (weights (h ! (s ! i))) (weights (h ! (s ! (?mid + i)))) (children_rng g1 i)
        \<and> h' ! (length h + 2 * i + 1)
            = offspring2 (weights (h ! (s ! i))) (weights (h ! (s ! (?mid + i)))) (children_rng g1 i)
        \<and> children_loop (take ?mid s) (drop ?mid s) i (h, s, g1)
            = Inr (take (length h + 2 * i) h', s @ [length h..<length h + 2 * i], children_rng g1 i)
        \<and> crossover (take (length h + 2 * i) h') (s ! i) (s ! (?mid + i)) (children_rng g1 i)
            = Inr (take (length h + 2 * Suc i) h', [length h + 2 * i, length h + 2 * i + 1],
                   children_rng g1 (Suc i))
        \<and> children_loop (take ?mid s) (drop ?mid s) (Suc i) (h, s, g1)
            = Inr (take (length h + 2 * Suc i) h', s @ [length h..<length h + 2 * Suc i],
                   children_rng g1 (Suc i))"
      by (rule per_pair)
    show "{i. i < length population \<and> (\<forall>k < ?mid. i \<noteq> k \<and> i \<noteq> ?mid + k)}
        = (if odd (length population) then {length population - 1} else {})"
      by (rule unpaired_positions)
  qed
qed

lemma random_raw_pos: "random_raw (f, n) = (f n, (f, Suc n))"
  by (simp add: random_raw_def)

lemma shuffle_loop_numeral:
  "shuffle_loop (numeral n) x g = shuffle_loop (Suc (pred_numeral n)) x g"
  by (simp add: numeral_eq_Suc)

lemma mod_Suc_Suc_0: "n mod Suc (Suc 0) = n mod 2"
  by (simp add: numeral_2_eq_2)

lemma example_children_draws_simps:
  "example_children_draws 0 = 0" "example_children_draws (Suc 0) = 3"
  "example_children_draws (numeral (Num.Bit0 n)) = 9007199254740991"
  "example_children_draws (numeral (Num.Bit1 n)) = 9007199254740991"
  by (simp_all add: example_children_draws_def)

lemma shuffle_children_example:
  "shuffle [0, 1, 2 :: nat] (example_children_draws, 0) = ([2, 1, 0], (example_children_draws, 2))"
  by (simp add: shuffle_def shuffle_loop_numeral random_raw_pos example_children_draws_simps
      Let_def mod_Suc_Suc_0)

lemma offspring_children_example:
  "offspring1 (replicate 7 3) (replicate 7 2) (example_children_draws, 2)
     = \<lparr>weights = [3, 3, 3, 2, 2, 3, 3], fitness = 0\<rparr>"
  "offspring2 (replicate 7 3) (replicate 7 2) (example_children_draws, 2)
     = \<lparr>weights = [2, 2, 2, 3, 3, 2, 2], fitness = 0\<rparr>"
  by (simp_all add: offspring1_def offspring2_def upt_7 cut1_of_def cut2_of_def loop_rng_def
      child_gene_def segment_gene_def example_eval example_children_draws_simps)

theorem add_children_size_witness:
  "valid_population example_pool [0, 1, 2]
   \<and> odd (length [0, 1, 2 :: nat])
   \<and> shuffle [0, 1, 2 :: nat] (example_children_draws, 0) = ([2, 1, 0], (example_children_draws, 2))
   \<and> (\<exists>h' g'. add_children example_pool [0, 1, 2] (example_children_draws, 0)
                 = Inr (h', [2, 1, 0, 4, 5], g')
        \<and> length h' = 6 \<and> take 4 h' = example_pool
        \<and> h' ! 4 = \<lparr>weights = [3, 3, 3, 2, 2, 3, 3], fitness = 0\<rparr>
        \<and> h' ! 5 = \<lparr>weights = [2, 2, 2, 3, 3, 2, 2], fitness = 0\<rparr>
        \<and> crossover example_pool 2 1 (example_children_draws, 2) = Inr (h', [4, 5], g'))
   \<and> length [2, 1, 0, 4, 5 :: nat] = length [0, 1, 2 :: nat] + 2 * (length [0, 1, 2 :: nat] div 2)"
proof -
  have valid: "valid_population example_pool [0, 1, 2]"
    by (simp add: valid_population_def example_pool_def)
  have lens: "length example_pool = 4" "length [0, 1, 2 :: nat] div 2 = 1"
    by (simp_all add: example_pool_def)
  have upt: "[4..<6] = [4, 5 :: nat]"
    by (simp add: upt_rec)
  have parents: "weights (example_pool ! 2) = replicate 7 3" "weights (example_pool ! 1) = replicate 7 2"
    by (simp_all add: example_pool_def)
  from add_children_size [OF valid, of "(example_children_draws, 0)"]
  obtain s g1 h' population' g' where sh: "shuffle [0, 1, 2 :: nat] (example_children_draws, 0) = (s, g1)"
    and res: "add_children example_pool [0, 1, 2] (example_children_draws, 0) = Inr (h', population', g')"
    and pop: "population' = s @ [length example_pool..<length example_pool + 2 * (length [0, 1, 2 :: nat] div 2)]"
    and h': "length h' = length example_pool + 2 * (length [0, 1, 2 :: nat] div 2)"
       "take (length example_pool) h' = example_pool"
    and g': "g' = children_rng g1 (length [0, 1, 2 :: nat] div 2)"
    and pairs: "\<forall>i < length [0, 1, 2 :: nat] div 2.
          population' ! (length [0, 1, 2 :: nat] + 2 * i) = length example_pool + 2 * i
        \<and> population' ! (length [0, 1, 2 :: nat] + 2 * i + 1) = length example_pool + 2 * i + 1
        \<and> h' ! (length example_pool + 2 * i)
            = offspring1 (weights (example_pool ! (s ! i)))
                (weights (example_pool ! (s ! (length [0, 1, 2 :: nat] div 2 + i)))) (children_rng g1 i)
        \<and> h' ! (length example_pool + 2 * i + 1)
            = offspring2 (weights (example_pool ! (s ! i)))
                (weights (example_pool ! (s ! (length [0, 1, 2 :: nat] div 2 + i)))) (children_rng g1 i)
        \<and> children_loop (take (length [0, 1, 2 :: nat] div 2) s) (drop (length [0, 1, 2 :: nat] div 2) s) i
              (example_pool, s, g1)
            = Inr (take (length example_pool + 2 * i) h', s @ [length example_pool..<length example_pool + 2 * i],
                   children_rng g1 i)
        \<and> crossover (take (length example_pool + 2 * i) h') (s ! i) (s ! (length [0, 1, 2 :: nat] div 2 + i))
              (children_rng g1 i)
            = Inr (take (length example_pool + 2 * Suc i) h',
                   [length example_pool + 2 * i, length example_pool + 2 * i + 1], children_rng g1 (Suc i))
        \<and> children_loop (take (length [0, 1, 2 :: nat] div 2) s) (drop (length [0, 1, 2 :: nat] div 2) s) (Suc i)
              (example_pool, s, g1)
            = Inr (take (length example_pool + 2 * Suc i) h',
                   s @ [length example_pool..<length example_pool + 2 * Suc i], children_rng g1 (Suc i))"
    by blast
  from sh shuffle_children_example have s: "s = [2, 1, 0]" "g1 = (example_children_draws, 2)"
    by simp_all
  from pop have pop': "population' = [2, 1, 0, 4, 5]"
    unfolding lens s by (simp add: upt)
  from h' have h'': "length h' = 6" "take 4 h' = example_pool"
    unfolding lens by simp_all
  from h''(1) have full: "take 6 h' = h'"
    by simp
  from pairs [unfolded lens s, rule_format, of 0]
  have c4: "h' ! 4 = offspring1 (weights (example_pool ! 2)) (weights (example_pool ! 1)) (example_children_draws, 2)"
    and c5: "h' ! 5 = offspring2 (weights (example_pool ! 2)) (weights (example_pool ! 1)) (example_children_draws, 2)"
    and cr: "crossover (take 4 h') 2 1 (example_children_draws, 2)
               = Inr (take 6 h', [4, 5], children_rng (example_children_draws, 2) 1)"
    by (simp_all del: children_loop.simps)
  from g' have g'': "g' = children_rng (example_children_draws, 2) 1"
    unfolding lens s by simp
  have "h' ! 4 = \<lparr>weights = [3, 3, 3, 2, 2, 3, 3], fitness = 0\<rparr>"
    unfolding c4 parents by (rule offspring_children_example)
  moreover have "h' ! 5 = \<lparr>weights = [2, 2, 2, 3, 3, 2, 2], fitness = 0\<rparr>"
    unfolding c5 parents by (rule offspring_children_example)
  moreover have "crossover example_pool 2 1 (example_children_draws, 2) = Inr (h', [4, 5], g')"
    using cr unfolding h''(2) full g'' .
  ultimately show ?thesis
    using valid res pop' h'' shuffle_children_example by simp
qed

section \<open>Properties of the evolution loop\<close>

lemma set_weight_shape:
  "length (set_weight h c i v) = length h"
  "length (weights (set_weight h c i v ! r)) = length (weights (h ! r))"
proof -
  show "length (set_weight h c i v) = length h"
    by (simp add: set_weight_def)
  show "length (weights (set_weight h c i v ! r)) = length (weights (h ! r))"
  proof (cases "c < length h")
    case True
    then show ?thesis by (simp add: set_weight_def nth_list_update)
  next
    case False
    then show ?thesis by (simp add: set_weight_def list_update_beyond)
  qed
qed

lemma set_random_weights_loop_shape:
  "length (fst (set_random_weights_loop h c n g)) = length h
   \<and> (\<forall>r. length (weights (fst (set_random_weights_loop h c n g) ! r)) = length (weights (h ! r)))
   \<and> (\<forall>k. k \<le> c \<longrightarrow> take k (fst (set_random_weights_loop h c n g)) = take k h)"
proof (induction n)
  case 0
  show ?case by simp
next
  case (Suc n)
  obtain h1 g1 where l: "set_random_weights_loop h c n g = (h1, g1)"
    by (cases "set_random_weights_loop h c n g")
  obtain v g2 where u: "uniform 0 500000 g1 = (v, g2)"
    by (cases "uniform 0 500000 g1")
  from Suc l show ?case
    by (simp add: u set_weight_shape set_weight_frame)
qed

lemma create_population_loop_inv:
  "\<exists>h' g'. create_population_loop n (h, [], g) = (h', [length h..<length h + n], g')
     \<and> length h' = length h + n \<and> take (length h) h' = h
     \<and> (\<forall>r<length h'. length h \<le> r \<longrightarrow> length (weights (h' ! r)) = 7)"
proof (induction n)
  case 0
  show ?case by simp
next
  case (Suc n)
  then obtain h1 g1 where st: "create_population_loop n (h, [], g) = (h1, [length h..<length h + n], g1)"
    and len: "length h1 = length h + n" and old: "take (length h) h1 = h"
    and new: "\<forall>r<length h1. length h \<le> r \<longrightarrow> length (weights (h1 ! r)) = 7"
    by blast
  let ?h = "h1 @ [Chromosome]"
  obtain h2 g2 where srw: "set_random_weights ?h (length h1) g1 = (h2, g2)"
    by (cases "set_random_weights ?h (length h1) g1")
  from set_random_weights_loop_shape [of ?h "length h1" "length (weights (?h ! length h1))" g1] srw
  have shape: "length h2 = length ?h"
    "\<And>r. length (weights (h2 ! r)) = length (weights (?h ! r))"
    "\<And>k. k \<le> length h1 \<Longrightarrow> take k h2 = take k ?h"
    by (simp_all add: set_random_weights_def)
  have "take (length h) h2 = h"
    using shape(3) [of "length h"] len old by simp
  moreover have "\<forall>r<length h2. length h \<le> r \<longrightarrow> length (weights (h2 ! r)) = 7"
    using new shape(1,2) by (auto simp: nth_append Chromosome_def)
  moreover have "length h2 = length h + Suc n"
    using shape(1) len by simp
  moreover have "create_population_loop (Suc n) (h, [], g) = (h2, [length h..<length h + Suc n], g2)"
    using st srw len by (simp add: Let_def)
  ultimately show ?case
    by blast
qed

lemma create_population_valid:
  "\<exists>h' population g'. create_population h n g = (h', population, g')
     \<and> length population = n \<and> valid_population h' population"
proof -
  from create_population_loop_inv [of n h g]
  obtain h' g' where "create_population_loop n (h, [], g) = (h', [length h..<length h + n], g')"
    and "length h' = length h + n"
    and "\<forall>r<length h'. length h \<le> r \<longrightarrow> length (weights (h' ! r)) = 7"
    by blast
  then show ?thesis
    by (auto simp: create_population_def valid_population_def)
qed

lemma evaluate_fitness_ok:
  assumes "well_formed data"
  shows "\<exists>s. evaluate_fitness h c data = Inr (set_fitness h c s)"
  using evaluate_loop_counts [OF assms order_refl, of "weights (h ! c)"]
  by (auto simp: evaluate_fitness_def evaluate_counts_def)

lemma set_fitness_shape:
  "length (set_fitness h c s) = length h"
  "weights (set_fitness h c s ! r) = weights (h ! r)"
proof -
  show "length (set_fitness h c s) = length h"
    by (simp add: set_fitness_def)
  show "weights (set_fitness h c s ! r) = weights (h ! r)"
  proof (cases "c < length h")
    case True
    then show ?thesis by (simp add: set_fitness_def nth_list_update)
  next
    case False
    then show ?thesis by (simp add: set_fitness_def list_update_beyond)
  qed
qed

lemma evaluate_population_ok:
  assumes "well_formed data"
  shows "\<exists>h'. evaluate_population h population data = Inr h' \<and> length h' = length h
           \<and> (\<forall>r. weights (h' ! r) = weights (h ! r))"
proof (induction population arbitrary: h)
  case Nil
  show ?case by simp
next
  case (Cons c cs)
  from evaluate_fitness_ok [OF assms, of h c] obtain s
    where ev: "evaluate_fitness h c data = Inr (set_fitness h c s)" ..
  from Cons [of "set_fitness h c s"] show ?case
    by (auto simp: ev set_fitness_shape)
qed

lemma valid_population_shape:
  "valid_population h population \<Longrightarrow> length h' = length h
     \<Longrightarrow> \<forall>r. weights (h' ! r) = weights (h ! r) \<Longrightarrow> valid_population h' population"
  by (simp add: valid_population_def)

lemma valid_population_subset:
  "valid_population h population \<Longrightarrow> set fittest \<subseteq> set population \<Longrightarrow> valid_population h fittest"
  by (auto simp: valid_population_def)

lemma write_avg_ok:
  "statistics \<longrightarrow> population \<noteq> [] \<Longrightarrow>
   \<exists>f'. write_avg statistics h population f = Inr f'
      \<and> length f' = length f + (if statistics then 1 else 0)"
  by (auto simp: write_avg_def avg_fitness_def)

lemma optimize_loop_inv:
  assumes "well_formed data" and "even (length population)"
    and "valid_population h population" and "statistics \<longrightarrow> population \<noteq> []"
  shows "\<exists>h' population' g' f'.
      optimize_loop data statistics n (h, population, g, f, out)
        = Inr (h', population', g', f', out @ [1..<Suc n])
    \<and> length population' = length population \<and> valid_population h' population'
    \<and> length f' = length f + (if statistics then n else 0)"
proof (induction n)
  case 0
  show ?case using assms(3) by simp
next
  case (Suc n)
  then obtain hk pk gk fk where st: "optimize_loop data statistics n (h, population, g, f, out)
        = Inr (hk, pk, gk, fk, out @ [1..<Suc n])"
    and lenk: "length pk = length population" and validk: "valid_population hk pk"
    and lenf: "length fk = length f + (if statistics then n else 0)"
    by blast
  obtain s gs where sh: "shuffle pk gk = (s, gs)"
    by (cases "shuffle pk gk")
  from add_children_result [OF validk sh] shuffled_valid(2) [OF validk sh]
  obtain h1 p1 g1 where ac: "add_children hk pk gk = Inr (h1, p1, g1)"
    and len1: "length p1 = length pk + 2 * (length pk div 2)" and valid1: "valid_population h1 p1"
    by auto
  from evaluate_population_ok [OF assms(1), of h1 p1]
  obtain h2 where ev: "evaluate_population h1 p1 data = Inr h2"
    and shape: "length h2 = length h1" "\<forall>r. weights (h2 ! r) = weights (h1 ! r)"
    by blast
  have valid2: "valid_population h2 p1"
    using valid1 shape by (rule valid_population_shape)
  from select_loop_inv [of "length p1 div 2" p1 h2 g1]
  obtain fittest rest g2 where sel: "select_fittest h2 p1 g1 = Inr (fittest, rest, g2)"
    and lenfit: "length fittest = length p1 div 2"
    and ms: "mset fittest + mset rest = mset p1"
    by (auto simp: select_fittest_def)
  from ms have "mset (fittest @ rest) = mset p1"
    by simp
  then have "set (fittest @ rest) = set p1"
    by (rule mset_eq_setD)
  then have sub: "set fittest \<subseteq> set p1"
    by auto
  have lenfit': "length fittest = length population"
    using lenfit len1 lenk assms(2) by (auto elim!: evenE)
  have validf: "valid_population h2 fittest"
    using valid2 sub by (rule valid_population_subset)
  have "statistics \<longrightarrow> fittest \<noteq> []"
    using assms(4) lenfit' by auto
  from write_avg_ok [OF this, of h2 fk]
  obtain f' where wa: "write_avg statistics h2 fittest fk = Inr f'"
    and lenf': "length f' = length fk + (if statistics then 1 else 0)"
    by blast
  have "optimize_loop data statistics (Suc n) (h, population, g, f, out)
        = Inr (h2, fittest, g2, f', out @ [1..<Suc (Suc n)])"
    by (simp add: st ac ev sel wa)
  moreover have "length f' = length f + (if statistics then Suc n else 0)"
    using lenf lenf' by simp
  ultimately show ?case
    using lenfit' validf by blast
qed

text \<open>
  C8, as amended. For every even initial population size \<open>N\<close>, every number of generations
  and every well-formed dataset, \<open>optimize\<close>, called without statistics or with \<open>N > 0\<close>,
  returns after exactly that many vary-evaluate-select cycles (the progress messages are
  those of the iterations 1 to \<open>iterations\<close>, and with statistics one average is written
  before the loop and one per cycle) and returns a final population of exactly \<open>N\<close>
  individuals. In particular an initial size of 10 with 5 generations gives 10 individuals.
\<close>

theorem optimize_population_size:
  assumes "even initial_population" and "well_formed data"
    and "statistics \<longrightarrow> 0 < initial_population"
  shows "\<exists>h' population g' f out.
      optimize h initial_population iterations data statistics g = Inr (h', population, g', f, out)
    \<and> length population = initial_population
    \<and> valid_population h' population
    \<and> out = [1..<Suc iterations]
    \<and> length f = (if statistics then Suc iterations else 0)"
proof -
  from create_population_valid [of h initial_population g]
  obtain h0 p0 g0 where cp: "create_population h initial_population g = (h0, p0, g0)"
    and len0: "length p0 = initial_population" and valid0: "valid_population h0 p0"
    by blast
  have ne: "statistics \<longrightarrow> p0 \<noteq> []"
    using assms(3) len0 by auto
  from write_avg_ok [OF ne, of h0 "[]"]
  obtain f0 where wa: "write_avg statistics h0 p0 [] = Inr f0"
    and lenf0: "length f0 = (if statistics then 1 else 0)"
    by auto
  have ev: "even (length p0)"
    using assms(1) len0 by simp
  from optimize_loop_inv [OF assms(2) ev valid0 ne, of iterations g0 f0 "[]"]
  obtain h' population g' f where
    loop: "optimize_loop data statistics iterations (h0, p0, g0, f0, []) = Inr (h', population, g', f, [1..<Suc iterations])"
    and len: "length population = length p0" and valid: "valid_population h' population"
    and lenf: "length f = length f0 + (if statistics then iterations else 0)"
    by auto
  have "optimize h initial_population iterations data statistics g
      = Inr (h', population, g', f, [1..<Suc iterations])"
    by (simp add: optimize_def cp wa loop)
  then show ?thesis
    using len len0 valid lenf lenf0 by auto
qed

theorem optimize_population_size_witness:
  "even (10 :: nat)
   \<and> well_formed [[0, 0, 0, 100, 0, 0, 200000], [0, 0, 0, 110, 0, 0, 0], [0, 0, 0, 105, 0, 0, 0]]
   \<and> (0 :: nat) < 10
   \<and> (\<exists>h' population g' f out.
         optimize [] 10 5 [[0, 0, 0, 100, 0, 0, 200000], [0, 0, 0, 110, 0, 0, 0], [0, 0, 0, 105, 0, 0, 0]]
           True (example_draws, 0) = Inr (h', population, g', f, out)
       \<and> length population = 10 \<and> out = [1, 2, 3, 4, 5] \<and> length f = 6)
   \<and> (\<exists>h' population g' f out.
         optimize [] 0 5 [[0, 0, 0, 100, 0, 0, 200000], [0, 0, 0, 110, 0, 0, 0], [0, 0, 0, 105, 0, 0, 0]]
           False (example_draws, 0) = Inr (h', population, g', f, out)
       \<and> length population = 0 \<and> out = [1, 2, 3, 4, 5] \<and> length f = 0)"
proof -
  have wf: "well_formed [[0, 0, 0, 100, 0, 0, 200000], [0, 0, 0, 110, 0, 0, 0], [0, 0, 0, 105, 0, 0, 0]]"
    by (simp add: well_formed_def)
  have upt: "[1..<Suc 5] = [1, 2, 3, 4, 5]"
    by (simp add: upt_rec)
  have a: "even (10 :: nat)" "True \<longrightarrow> (0 :: nat) < 10" "even (0 :: nat)" "False \<longrightarrow> (0 :: nat) < 0"
    by simp_all
  from optimize_population_size [OF a(1) wf a(2), of "[]" 5 "(example_draws, 0)"]
    optimize_population_size [OF a(3) wf a(4), of "[]" 5 "(example_draws, 0)"]
  show ?thesis
    unfolding upt using wf by simp blast
qed

text \<open>
  C8 as stated fails for the even size 0 when statistics are recorded: before the first
  cycle \<open>optimize\<close> writes the average fitness of the empty initial population, which raises
  \<open>ZeroDivisionError\<close>.
\<close>

theorem optimize_empty_statistics_counterexample:
  "optimize [] 0 5 [[0, 0, 0, 100, 0, 0, 200000], [0, 0, 0, 110, 0, 0, 0]] True (example_draws, 0)
     = Inl ZeroDivisionError"
  by (simp add: optimize_def create_population_def write_avg_def avg_fitness_def)

end
